theory Spec2Isabelle
  imports Complex_Main "HOL-Library.Word"
begin

section \<open>Data model of Colorize.h\<close>

text \<open>
  A \<^verbatim>\<open>cv::Mat\<close> is a list of rows; \<^verbatim>\<open>m.rows\<close> and \<^verbatim>\<open>m.cols\<close> are C++ \<^verbatim>\<open>int\<close>s.
  The products and sums that the source forms in \<^verbatim>\<open>int\<close> wrap around at 32 bits
  (\<open>wrap32\<close>) before they are widened to \<^verbatim>\<open>unsigned long\<close> (\<open>toULong\<close>).
  An 8-bit channel value (\<^verbatim>\<open>uchar\<close>) is an \<open>8 word\<close>.
  A \<^verbatim>\<open>double\<close> is a value of a type \<open>'d\<close> about which nothing is assumed: the
  operations of the floating-point unit that the source uses are the fields of a record
  \<open>arith\<close>, so that rounding, underflow, overflow and NaN are whatever these operations
  make them. \<open>exactArith\<close> is the instance of exact real arithmetic.
\<close>

definition wrap32 :: "int \<Rightarrow> int" where
  "wrap32 x = (x + 2 ^ 31) mod 2 ^ 32 - 2 ^ 31"

definition toULong :: "int \<Rightarrow> nat" where
  "toULong x = nat (x mod 2 ^ 64)"

record 'd arith =
  f_zero :: 'd
  f_one :: 'd
  f_two :: 'd
  f_eps :: 'd
  f_size :: "nat \<Rightarrow> 'd"
  f_add :: "'d \<Rightarrow> 'd \<Rightarrow> 'd"
  f_sub :: "'d \<Rightarrow> 'd \<Rightarrow> 'd"
  f_mul :: "'d \<Rightarrow> 'd \<Rightarrow> 'd"
  f_div :: "'d \<Rightarrow> 'd \<Rightarrow> 'd"
  f_neg :: "'d \<Rightarrow> 'd"
  f_exp :: "'d \<Rightarrow> 'd"
  f_ge0 :: "'d \<Rightarrow> bool"

definition exactArith :: "real arith" where
  "exactArith = \<lparr>f_zero = 0, f_one = 1, f_two = 2, f_eps = 0.01, f_size = real,
     f_add = (+), f_sub = (-), f_mul = (*), f_div = (/), f_neg = uminus, f_exp = exp,
     f_ge0 = (\<lambda>x. 0 \<le> x)\<rparr>"

type_synonym 'a Mat = "'a list list"

definition rows :: "'a Mat \<Rightarrow> int" where
  "rows m = int (length m)"

definition cols :: "'a Mat \<Rightarrow> int" where
  "cols m = (case m of [] \<Rightarrow> 0 | row # _ \<Rightarrow> int (length row))"

text \<open>Every row of a matrix has \<open>cols\<close> elements.\<close>

definition wfMat :: "'a Mat \<Rightarrow> bool" where
  "wfMat m = list_all (\<lambda>row. int (length row) = cols m) m"

type_synonym uchar = "8 word"
type_synonym pixel = "uchar \<times> uchar \<times> uchar"
type_synonym image = "pixel Mat"

text \<open>
  \<^verbatim>\<open>assert\<close> aborts the program (in a build where assertions are enabled) and
  \<^verbatim>\<open>throw std::runtime_error\<close> leaves the function: both are results of the model.
  Reading a \<^verbatim>\<open>std::vector\<close> out of range is undefined in the source; the properties below
  are stated for indices within range, which is what setupProblem passes.
\<close>

datatype error = AssertionFailed string | RuntimeError string

text \<open>
  \<^verbatim>\<open>Eigen::Triplet<double>\<close> is (row, column, value). \<^verbatim>\<open>Eigen::SparseMatrix\<close> is kept as
  its dimensions and the triplets it was set from; \<^verbatim>\<open>A.coeff(r, s)\<close> is zero when no
  triplet is given for (r, s), and otherwise the values given for (r, s) added up in
  their order, since \<^verbatim>\<open>setFromTriplets\<close> sums duplicates.
\<close>

type_synonym 'd triplet = "nat \<times> nat \<times> 'd"

record 'd SparseMatrix =
  outerSize :: nat
  innerSize :: nat
  entries :: "'d triplet list"

definition resize :: "nat \<Rightarrow> nat \<Rightarrow> 'd SparseMatrix" where
  "resize m n = \<lparr>outerSize = m, innerSize = n, entries = []\<rparr>"

definition setFromTriplets :: "'d SparseMatrix \<Rightarrow> 'd triplet list \<Rightarrow> 'd SparseMatrix" where
  "setFromTriplets A ts = A\<lparr>entries := ts\<rparr>"

definition coeff :: "'d arith \<Rightarrow> 'd SparseMatrix \<Rightarrow> nat \<Rightarrow> nat \<Rightarrow> 'd" where
  "coeff ar A r s =
     (case map (\<lambda>t. snd (snd t)) (filter (\<lambda>t. fst t = r \<and> fst (snd t) = s) (entries A)) of
        [] \<Rightarrow> f_zero ar
      | x # xs \<Rightarrow> fold (\<lambda>y acc. f_add ar acc y) xs x)"

section \<open>Mask extraction: getScribbleMask\<close>

text \<open>
  The OpenCV primitives the function calls, on 8-bit data: \<^verbatim>\<open>absdiff\<close> per channel,
  \<^verbatim>\<open>split\<close> and the saturating \<^verbatim>\<open>+\<close> of the three channels, \<^verbatim>\<open>threshold\<close> with
  \<^verbatim>\<open>THRESH_BINARY\<close> and maximum 255, and \<^verbatim>\<open>erode\<close> with the default 3x3 rectangle,
  whose border pixels outside the image do not take part in the minimum. The number of
  erosions is a count, read as a natural number.
\<close>

definition absdiff8 :: "uchar \<Rightarrow> uchar \<Rightarrow> uchar" where
  "absdiff8 a b = (if b \<le> a then a - b else b - a)"

definition absdiff :: "image \<Rightarrow> image \<Rightarrow> image" where
  "absdiff a b =
     map2 (map2 (\<lambda>(b1, g1, r1) (b2, g2, r2). (absdiff8 b1 b2, absdiff8 g1 g2, absdiff8 r1 r2))) a b"

definition saturatingAdd :: "uchar \<Rightarrow> uchar \<Rightarrow> uchar" where
  "saturatingAdd a b = (if unat a + unat b > 255 then 255 else a + b)"

definition channelSum :: "image \<Rightarrow> uchar Mat" where
  "channelSum d = map (map (\<lambda>(c0, c1, c2). saturatingAdd (saturatingAdd c0 c1) c2)) d"

definition threshold :: "uchar Mat \<Rightarrow> real \<Rightarrow> uchar Mat" where
  "threshold m thresh = map (map (\<lambda>x. if real (unat x) > thresh then 255 else 0)) m"

definition window :: "int \<Rightarrow> int \<Rightarrow> (int \<times> int) list" where
  "window i j = concat (map (\<lambda>dx. map (\<lambda>dy. (i + dy, j + dx)) [-1, 0, 1]) [-1, 0, 1])"

definition inGrid :: "int \<Rightarrow> int \<Rightarrow> int \<times> int \<Rightarrow> bool" where
  "inGrid nrows ncols p = (0 \<le> fst p \<and> fst p < nrows \<and> 0 \<le> snd p \<and> snd p < ncols)"

definition pixelAt :: "'a Mat \<Rightarrow> int \<times> int \<Rightarrow> 'a" where
  "pixelAt m p = m ! nat (fst p) ! nat (snd p)"

definition erode1 :: "uchar Mat \<Rightarrow> uchar Mat" where
  "erode1 m =
     map (\<lambda>i. map (\<lambda>j. foldr min (map (pixelAt m) (filter (inGrid (rows m) (cols m)) (window i j))) 255)
                 [0 .. cols m - 1])
         [0 .. rows m - 1]"

definition erode :: "uchar Mat \<Rightarrow> nat \<Rightarrow> uchar Mat" where
  "erode m iterations = (erode1 ^^ iterations) m"

definition getScribbleMask :: "image \<Rightarrow> image \<Rightarrow> real \<Rightarrow> nat \<Rightarrow> uchar Mat" where
  "getScribbleMask img scribbles eps nErosions =
     (let diff = absdiff img scribbles;
          mask = channelSum diff;
          mask = threshold mask eps
      in erode mask nErosions)"

section \<open>Affinity weights\<close>

definition squaredDifference :: "'d arith \<Rightarrow> 'd list \<Rightarrow> nat \<Rightarrow> nat \<Rightarrow> 'd" where
  "squaredDifference ar X r s = f_mul ar (f_sub ar (X ! r) (X ! s)) (f_sub ar (X ! r) (X ! s))"

definition to1D :: "'a Mat \<Rightarrow> 'a list" where
  "to1D m = concat (map (\<lambda>row. take (nat (cols m)) row) m)"

definition variance :: "'d arith \<Rightarrow> 'd list \<Rightarrow> 'd \<Rightarrow> error + 'd" where
  "variance ar vals eps =
     (let (sum, squaredSum) =
            fold (\<lambda>v (sum, squaredSum). (f_add ar sum v, f_add ar squaredSum (f_mul ar v v)))
              vals (f_zero ar, f_zero ar)
      in if \<not> f_ge0 ar sum then Inl (AssertionFailed ''sum >= 0'')
         else if \<not> f_ge0 ar squaredSum then Inl (AssertionFailed ''squaredSum >= 0'')
         else let n = f_size ar (length vals)
              in Inr (f_add ar (f_sub ar (f_div ar squaredSum n)
                                         (f_div ar (f_mul ar sum sum) (f_mul ar n n))) eps))"

definition getNeighbours :: "int \<Rightarrow> int \<Rightarrow> int \<Rightarrow> int \<Rightarrow> nat list" where
  "getNeighbours i j nrows ncols =
     concat (map (\<lambda>dx. concat (map (\<lambda>dy.
        let m = i + dy; n = j + dx in
        if (dx = 0 \<and> dy = 0) \<or> m < 0 \<or> n < 0 \<or> m \<ge> nrows \<or> n \<ge> ncols then []
        else [toULong (wrap32 (wrap32 (m * ncols) + n))]) [-1, 0, 1])) [-1, 0, 1])"

text \<open>The second loop of getWeights: the kernel value replaces each entry, the normalizer accumulates.\<close>

fun kernelLoop :: "'d arith \<Rightarrow> 'd \<Rightarrow> 'd \<Rightarrow> 'd list \<Rightarrow> 'd \<Rightarrow> 'd list \<times> 'd" where
  "kernelLoop ar gamma var [] normalizer = ([], normalizer)"
| "kernelLoop ar gamma var (w # ws) normalizer =
     (let w' = f_exp ar (f_div ar (f_mul ar (f_neg ar gamma) w) (f_mul ar (f_two ar) var));
          (rest, normalizer') = kernelLoop ar gamma var ws (f_add ar normalizer w')
      in (w' # rest, normalizer'))"

text \<open>The third loop: each entry is divided by the normalizer, then asserted non-negative.\<close>

fun normalizeLoop :: "'d arith \<Rightarrow> 'd \<Rightarrow> 'd list \<Rightarrow> error + 'd list" where
  "normalizeLoop ar normalizer [] = Inr []"
| "normalizeLoop ar normalizer (w # ws) =
     (let w' = f_div ar w normalizer
      in if \<not> f_ge0 ar w' then Inl (AssertionFailed ''w >= 0'')
         else case normalizeLoop ar normalizer ws of
                Inl e \<Rightarrow> Inl e
              | Inr rest \<Rightarrow> Inr (w' # rest))"

definition getWeights :: "'d arith \<Rightarrow> 'd list \<Rightarrow> nat \<Rightarrow> nat list \<Rightarrow> 'd \<Rightarrow> error + 'd list" where
  "getWeights ar values r neighbors gamma =
     (let neighborsWeights = map (\<lambda>s. squaredDifference ar values r s) neighbors;
          neighborsValues = map (\<lambda>s. values ! s) neighbors @ [values ! r]
      in case variance ar neighborsValues (f_eps ar) of
           Inl e \<Rightarrow> Inl e
         | Inr var \<Rightarrow>
             (let (neighborsWeights, normalizer) = kernelLoop ar gamma var neighborsWeights (f_zero ar)
              in normalizeLoop ar normalizer neighborsWeights))"

section \<open>Assembly of the linear system: setupProblem\<close>

record 'd problem =
  coefficients :: "'d triplet list"
  bu :: "'d list"
  bv :: "'d list"

text \<open>The loop over the neighbours \<open>k\<close> of one pixel \<open>r\<close>, on the pairs (neighbors[k], weights[k]).\<close>

fun neighbourLoop ::
  "'d arith \<Rightarrow> 'd list \<Rightarrow> 'd list \<Rightarrow> bool list \<Rightarrow> nat \<Rightarrow> (nat \<times> 'd) list \<Rightarrow> 'd problem \<Rightarrow> 'd problem" where
  "neighbourLoop ar u v hasColor r [] P = P"
| "neighbourLoop ar u v hasColor r ((s, w) # rest) P =
     neighbourLoop ar u v hasColor r rest
       (if hasColor ! s
        then P\<lparr>bu := (bu P)[r := f_add ar (bu P ! r) (f_mul ar w (u ! s))],
               bv := (bv P)[r := f_add ar (bv P ! r) (f_mul ar w (v ! s))]\<rparr>
        else P\<lparr>coefficients := coefficients P @ [(r, s, f_neg ar w)]\<rparr>)"

text \<open>The body of the two pixel loops, for the pixel at row \<open>i\<close>, column \<open>j\<close>.\<close>

definition pixelStep ::
  "'d arith \<Rightarrow> 'd list \<Rightarrow> 'd list \<Rightarrow> 'd list \<Rightarrow> bool list \<Rightarrow> 'd \<Rightarrow> int \<Rightarrow> int \<Rightarrow> int \<times> int
     \<Rightarrow> 'd problem \<Rightarrow> error + 'd problem" where
  "pixelStep ar y u v hasColor gamma nrows ncols p P =
     (let i = fst p; j = snd p;
          r = toULong (wrap32 (wrap32 (i * ncols) + j));
          neighbors = getNeighbours i j nrows ncols
      in case getWeights ar y r neighbors gamma of
           Inl e \<Rightarrow> Inl e
         | Inr weights \<Rightarrow>
             Inr (neighbourLoop ar u v hasColor r (zip neighbors weights)
                    (P\<lparr>coefficients := coefficients P @ [(r, r, f_one ar)]\<rparr>)))"

fun pixelLoop ::
  "'d arith \<Rightarrow> 'd list \<Rightarrow> 'd list \<Rightarrow> 'd list \<Rightarrow> bool list \<Rightarrow> 'd \<Rightarrow> int \<Rightarrow> int \<Rightarrow> (int \<times> int) list
     \<Rightarrow> 'd problem \<Rightarrow> error + 'd problem" where
  "pixelLoop ar y u v hasColor gamma nrows ncols [] P = Inr P"
| "pixelLoop ar y u v hasColor gamma nrows ncols (p # ps) P =
     (case pixelStep ar y u v hasColor gamma nrows ncols p P of
        Inl e \<Rightarrow> Inl e
      | Inr P' \<Rightarrow> pixelLoop ar y u v hasColor gamma nrows ncols ps P')"

text \<open>
  \<open>bgr2yuv\<close> stands for the external colour conversion of the scribble image
  (\<^verbatim>\<open>cvtColor\<close> to YUV, \<^verbatim>\<open>convertTo\<close> double, \<^verbatim>\<open>split\<close>): it returns the three planes.
  The mask is read through \<^verbatim>\<open>to1D<bool>\<close>: a non-zero byte is true.
\<close>

definition setupProblem ::
  "'d arith \<Rightarrow> (image \<Rightarrow> 'd Mat \<times> 'd Mat \<times> 'd Mat) \<Rightarrow> 'd Mat \<Rightarrow> image \<Rightarrow> uchar Mat \<Rightarrow> 'd
     \<Rightarrow> error + ('d SparseMatrix \<times> 'd list \<times> 'd list)" where
  "setupProblem ar bgr2yuv Y scribbles maskMat gamma =
     (let nrows = rows Y; ncols = cols Y;
          nPixels = nat (wrap32 (nrows * ncols));
          A = resize nPixels nPixels;
          P = \<lparr>coefficients = [], bu = replicate nPixels (f_zero ar),
                 bv = replicate nPixels (f_zero ar)\<rparr>;
          (Ys, U, V) = bgr2yuv scribbles;
          y = to1D Y; u = to1D U; v = to1D V;
          hasColor = map (\<lambda>b. b \<noteq> 0) (to1D maskMat)
      in case pixelLoop ar y u v hasColor gamma nrows ncols
                (List.product [0 .. nrows - 1] [0 .. ncols - 1]) P of
           Inl e \<Rightarrow> Inl e
         | Inr P' \<Rightarrow> Inr (setFromTriplets A (coefficients P'), bu P', bv P'))"

section \<open>The pipeline: colorize\<close>

text \<open>
  \<open>eigen2opencv\<close> views the solution vector as an \<open>nrows\<close> by \<open>ncols\<close> matrix, row by row.
  \<open>solve\<close> stands for \<^verbatim>\<open>solver.compute(A); solver.solve(b)\<close> of the external BiCGSTAB
  solver together with \<^verbatim>\<open>solver.info() == Eigen::Success\<close> read after it, and \<open>yuv2bgr\<close> for
  the external \<^verbatim>\<open>merge\<close>, \<^verbatim>\<open>convertTo\<close> 8-bit and \<^verbatim>\<open>cvtColor\<close> back to BGR.
\<close>

definition eigen2opencv :: "'d list \<Rightarrow> int \<Rightarrow> int \<Rightarrow> 'd Mat" where
  "eigen2opencv v nrows ncols =
     map (\<lambda>i. take (nat ncols) (drop (i * nat ncols) v)) [0 ..< nat nrows]"

definition colorize ::
  "'d arith \<Rightarrow> (image \<Rightarrow> 'd Mat \<times> 'd Mat \<times> 'd Mat) \<Rightarrow> ('d SparseMatrix \<Rightarrow> 'd list \<Rightarrow> 'd list \<times> bool)
     \<Rightarrow> ('d Mat \<times> 'd Mat \<times> 'd Mat \<Rightarrow> image)
     \<Rightarrow> image \<Rightarrow> image \<Rightarrow> uchar Mat \<Rightarrow> 'd \<Rightarrow> error + image" where
  "colorize ar bgr2yuv solve yuv2bgr img scribbles maskMat gamma =
     (let (Y, U0, V0) = bgr2yuv img
      in case setupProblem ar bgr2yuv Y scribbles maskMat gamma of
           Inl e \<Rightarrow> Inl e
         | Inr (A, b_u, b_v) \<Rightarrow>
             (let (U, infoU) = solve A b_u
              in if \<not> infoU then Inl (RuntimeError ''Failed to solve for U channel.'')
                 else let (V, infoV) = solve A b_v
                      in if \<not> infoV then Inl (RuntimeError ''Failed to solve for V channel.'')
                         else let nrows = rows Y; ncols = cols Y;
                                  mU = eigen2opencv U nrows ncols;
                                  mV = eigen2opencv V nrows ncols
                              in Inr (yuv2bgr (Y, mU, mV))))"

section \<open>Definitions used to state the properties\<close>

text \<open>
  The grid positions around a pixel that getNeighbours visits and keeps, and the row-major
  flattening \<open>r = i * ncols + j\<close> of a position.
\<close>

definition neighbourPositions :: "int \<Rightarrow> int \<Rightarrow> int \<Rightarrow> int \<Rightarrow> (int \<times> int) list" where
  "neighbourPositions i j nrows ncols =
     filter (\<lambda>p. p \<noteq> (i, j) \<and> inGrid nrows ncols p) (window i j)"

definition flatIndex :: "int \<Rightarrow> int \<times> int \<Rightarrow> nat" where
  "flatIndex ncols p = nat (fst p * ncols + snd p)"

definition pixels :: "int \<Rightarrow> int \<Rightarrow> (int \<times> int) list" where
  "pixels nrows ncols = List.product [0 .. nrows - 1] [0 .. ncols - 1]"

text \<open>The mask of \<open>R\<close> rows and \<open>C\<close> columns with no constrained pixel.\<close>

definition zeroMat :: "nat \<Rightarrow> nat \<Rightarrow> uchar Mat" where
  "zeroMat R C = replicate R (replicate C 0)"

definition hasColorOf :: "uchar Mat \<Rightarrow> bool list" where
  "hasColorOf maskMat = map (\<lambda>b. b \<noteq> 0) (to1D maskMat)"

text \<open>
  The weights as the specification words them, evaluated with the operations of the
  arithmetic: sums taken from left to right starting at zero; the population variance
  \<open>E[X\<^sup>2] - E[X]\<^sup>2\<close> of the luminances of the neighbours and of the pixel itself, with
  \<open>E[X\<^sup>2]\<close> the sum of squares over \<open>n\<close> and \<open>E[X]\<^sup>2\<close> the squared sum over \<open>n\<^sup>2\<close>, plus the
  floor; the exponential kernel; the division by the sum of the kernel values.
\<close>

definition spec_sum :: "'d arith \<Rightarrow> 'd list \<Rightarrow> 'd" where
  "spec_sum ar xs = fold (\<lambda>x acc. f_add ar acc x) xs (f_zero ar)"

definition spec_sigma2 :: "'d arith \<Rightarrow> 'd list \<Rightarrow> nat \<Rightarrow> nat list \<Rightarrow> 'd" where
  "spec_sigma2 ar Y r neighbors =
     (let X = map (\<lambda>s. Y ! s) neighbors @ [Y ! r];
          n = f_size ar (length X);
          meanOfSquares = f_div ar (spec_sum ar (map (\<lambda>x. f_mul ar x x) X)) n;
          squareOfMean = f_div ar (f_mul ar (spec_sum ar X) (spec_sum ar X)) (f_mul ar n n)
      in f_add ar (f_sub ar meanOfSquares squareOfMean) (f_eps ar))"

definition spec_prenormalized :: "'d arith \<Rightarrow> 'd list \<Rightarrow> 'd \<Rightarrow> nat \<Rightarrow> nat list \<Rightarrow> nat \<Rightarrow> 'd" where
  "spec_prenormalized ar Y gamma r neighbors s =
     (let d = f_mul ar (f_sub ar (Y ! r) (Y ! s)) (f_sub ar (Y ! r) (Y ! s))
      in f_exp ar (f_div ar (f_mul ar (f_neg ar gamma) d)
                            (f_mul ar (f_two ar) (spec_sigma2 ar Y r neighbors))))"

definition spec_weights :: "'d arith \<Rightarrow> 'd list \<Rightarrow> 'd \<Rightarrow> nat \<Rightarrow> nat list \<Rightarrow> 'd list" where
  "spec_weights ar Y gamma r neighbors =
     map (\<lambda>s. f_div ar (spec_prenormalized ar Y gamma r neighbors s)
                 (spec_sum ar (map (spec_prenormalized ar Y gamma r neighbors) neighbors))) neighbors"

text \<open>
  What one pass of the neighbour loop does for the pixel \<open>r\<close>, given the pairs (neighbour,
  weight): the off-diagonal triplets it appends, and the value it leaves in a right-hand
  side that held \<open>b\<close>; the weights and pairs of the pixel at a position; the triplets of
  its row; the updates of a right-hand side over a list of pixels; the values that a
  triplet list gives for the entry (r, s); the flattened chrominance planes of the scribbles.
\<close>

definition rowEntries :: "'d arith \<Rightarrow> bool list \<Rightarrow> nat \<Rightarrow> (nat \<times> 'd) list \<Rightarrow> 'd triplet list" where
  "rowEntries ar hasColor r nz =
     map (\<lambda>(s, w). (r, s, f_neg ar w)) (filter (\<lambda>(s, w). \<not> hasColor ! s) nz)"

definition rhsFold :: "'d arith \<Rightarrow> 'd list \<Rightarrow> bool list \<Rightarrow> (nat \<times> 'd) list \<Rightarrow> 'd \<Rightarrow> 'd" where
  "rhsFold ar u hasColor nz b =
     fold (\<lambda>(s, w) acc. f_add ar acc (f_mul ar w (u ! s))) (filter (\<lambda>(s, w). hasColor ! s) nz) b"

definition weightsOf :: "'d arith \<Rightarrow> 'd list \<Rightarrow> 'd \<Rightarrow> int \<Rightarrow> int \<Rightarrow> int \<times> int \<Rightarrow> 'd list" where
  "weightsOf ar y gamma nrows ncols p =
     (case getWeights ar y (flatIndex ncols p) (getNeighbours (fst p) (snd p) nrows ncols) gamma of
        Inl e \<Rightarrow> [] | Inr ws \<Rightarrow> ws)"

definition pairsOf :: "'d arith \<Rightarrow> 'd list \<Rightarrow> 'd \<Rightarrow> int \<Rightarrow> int \<Rightarrow> int \<times> int \<Rightarrow> (nat \<times> 'd) list" where
  "pairsOf ar y gamma nrows ncols p =
     zip (getNeighbours (fst p) (snd p) nrows ncols) (weightsOf ar y gamma nrows ncols p)"

definition rowOf :: "'d arith \<Rightarrow> 'd list \<Rightarrow> bool list \<Rightarrow> 'd \<Rightarrow> int \<Rightarrow> int \<Rightarrow> int \<times> int \<Rightarrow> 'd triplet list" where
  "rowOf ar y hasColor gamma nrows ncols p =
     (flatIndex ncols p, flatIndex ncols p, f_one ar)
       # rowEntries ar hasColor (flatIndex ncols p) (pairsOf ar y gamma nrows ncols p)"

definition rhsUpdates :: "int \<Rightarrow> ((int \<times> int) \<Rightarrow> 'd \<Rightarrow> 'd) \<Rightarrow> (int \<times> int) list \<Rightarrow> 'd list \<Rightarrow> 'd list" where
  "rhsUpdates ncols g ps b = fold (\<lambda>p b. b[flatIndex ncols p := g p (b ! flatIndex ncols p)]) ps b"

definition entryValues :: "'d triplet list \<Rightarrow> nat \<Rightarrow> nat \<Rightarrow> 'd list" where
  "entryValues ts r s = map (\<lambda>t. snd (snd t)) (filter (\<lambda>t. fst t = r \<and> fst (snd t) = s) ts)"

definition scribbleU :: "(image \<Rightarrow> 'd Mat \<times> 'd Mat \<times> 'd Mat) \<Rightarrow> image \<Rightarrow> 'd list" where
  "scribbleU bgr2yuv scribbles = to1D (fst (snd (bgr2yuv scribbles)))"

definition scribbleV :: "(image \<Rightarrow> 'd Mat \<times> 'd Mat \<times> 'd Mat) \<Rightarrow> image \<Rightarrow> 'd list" where
  "scribbleV bgr2yuv scribbles = to1D (snd (snd (bgr2yuv scribbles)))"

section \<open>Neighbour sets\<close>

lemma wrap32_id: "- (2 ^ 31) \<le> x \<Longrightarrow> x < 2 ^ 31 \<Longrightarrow> wrap32 x = x"
  by (simp add: wrap32_def)

lemma toULong_id: "0 \<le> x \<Longrightarrow> x < 2 ^ 31 \<Longrightarrow> toULong x = nat x"
  by (simp add: toULong_def)

lemma index32:
  assumes "inGrid nrows ncols p" and "nrows * ncols < 2 ^ 31"
  shows "toULong (wrap32 (wrap32 (fst p * ncols) + snd p)) = flatIndex ncols p"
proof -
  obtain a b where p: "p = (a, b)" by (cases p)
  from assms(1) have ab: "0 \<le> a" "a < nrows" "0 \<le> b" "b < ncols" by (simp_all add: inGrid_def p)
  have "a * ncols + b < (a + 1) * ncols" using ab by (simp add: algebra_simps)
  also have "\<dots> \<le> nrows * ncols" using ab by (intro mult_right_mono) simp_all
  finally have lt: "a * ncols + b < 2 ^ 31" using assms(2) by simp
  have nn: "0 \<le> a * ncols" using ab by simp
  with lt ab have "a * ncols < 2 ^ 31" by linarith
  with nn have w1: "wrap32 (a * ncols) = a * ncols" by (intro wrap32_id) simp_all
  have nn2: "0 \<le> a * ncols + b" using nn ab by simp
  have w2: "wrap32 (a * ncols + b) = a * ncols + b" using nn2 lt by (intro wrap32_id) simp_all
  have "toULong (a * ncols + b) = nat (a * ncols + b)" using nn2 lt by (intro toULong_id) simp_all
  then show ?thesis by (simp add: p w1 w2 flatIndex_def)
qed

lemma visit_eq:
  assumes "nrows * ncols < 2 ^ 31"
  shows "(let m = i + dy; n = j + dx in
        if (dx = 0 \<and> dy = 0) \<or> m < 0 \<or> n < 0 \<or> m \<ge> nrows \<or> n \<ge> ncols then []
        else [toULong (wrap32 (wrap32 (m * ncols) + n))])
   = map (flatIndex ncols) (filter (\<lambda>p. p \<noteq> (i, j) \<and> inGrid nrows ncols p) [(i + dy, j + dx)])"
proof (cases "inGrid nrows ncols (i + dy, j + dx)")
  case True
  from index32[OF True assms] True show ?thesis
    by (auto simp add: Let_def inGrid_def)
next
  case False
  then show ?thesis by (auto simp add: Let_def inGrid_def)
qed

lemma concat_map_singleton_filter:
  "concat (map (\<lambda>x. map g (filter P [f x])) xs) = map g (filter P (map f xs))"
  by (induction xs) simp_all

lemma concat_map_filter_concat:
  "concat (map (\<lambda>x. map g (filter P (h x))) xs) = map g (filter P (concat (map h xs)))"
  by (induction xs) simp_all

lemma getNeighbours_positions:
  assumes "nrows * ncols < 2 ^ 31"
  shows "getNeighbours i j nrows ncols = map (flatIndex ncols) (neighbourPositions i j nrows ncols)"
  unfolding getNeighbours_def visit_eq[OF assms] neighbourPositions_def window_def
    concat_map_singleton_filter concat_map_filter_concat ..

lemma offset_iff: "(\<exists>d\<in>{-1, 0, 1::int}. m = i + d) \<longleftrightarrow> \<bar>m - i\<bar> \<le> 1"
  by auto

lemma set_window: "set (window i j) = {(m, n). \<bar>m - i\<bar> \<le> 1 \<and> \<bar>n - j\<bar> \<le> 1}"
proof -
  have "set (window i j) = {(m, n). (\<exists>dy\<in>{-1, 0, 1::int}. m = i + dy) \<and> (\<exists>dx\<in>{-1, 0, 1::int}. n = j + dx)}"
    unfolding window_def by (simp only: set_concat set_map) auto
  then show ?thesis by (simp only: offset_iff)
qed

lemma window_explicit:
  "window i j = [(i - 1, j - 1), (i, j - 1), (i + 1, j - 1), (i - 1, j), (i, j), (i + 1, j),
                 (i - 1, j + 1), (i, j + 1), (i + 1, j + 1)]"
  by (simp add: window_def)

lemma distinct_window: "distinct (window i j)"
  by (simp add: window_explicit)

lemma set_neighbourPositions:
  "set (neighbourPositions i j nrows ncols) =
     {(m, n). \<bar>m - i\<bar> \<le> 1 \<and> \<bar>n - j\<bar> \<le> 1 \<and> (m, n) \<noteq> (i, j) \<and> inGrid nrows ncols (m, n)}"
  unfolding neighbourPositions_def set_filter set_window by auto

lemma distinct_neighbourPositions: "distinct (neighbourPositions i j nrows ncols)"
  by (simp add: neighbourPositions_def distinct_window)

lemma flatIndex_inj:
  assumes "inGrid nrows ncols p" "inGrid nrows ncols q" "flatIndex ncols p = flatIndex ncols q"
  shows "p = q"
proof -
  obtain a b where p: "p = (a, b)" by (cases p)
  obtain c d where q: "q = (c, d)" by (cases q)
  from assms have ab: "0 \<le> a" "0 \<le> b" "b < ncols" and cd: "0 \<le> c" "0 \<le> d" "d < ncols"
    by (simp_all add: inGrid_def p q)
  have "0 \<le> a * ncols + b" "0 \<le> c * ncols + d" using ab cd by simp_all
  with assms(3) have eq: "a * ncols + b = c * ncols + d"
    by (simp add: flatIndex_def p q)
  have "(a * ncols + b) div ncols = a" "(c * ncols + d) div ncols = c"
    using ab cd by simp_all
  with eq have "a = c" by simp
  with eq show ?thesis by (simp add: p q)
qed

lemma inj_on_flatIndex: "inj_on (flatIndex ncols) {p. inGrid nrows ncols p}"
  by (rule inj_onI) (auto dest: flatIndex_inj)

lemma neighbourPositions_inGrid:
  "p \<in> set (neighbourPositions i j nrows ncols) \<Longrightarrow> inGrid nrows ncols p"
  by (simp add: neighbourPositions_def)

lemma distinct_getNeighbours:
  assumes "nrows * ncols < 2 ^ 31"
  shows "distinct (getNeighbours i j nrows ncols)"
  unfolding getNeighbours_positions[OF assms] distinct_map
  by (auto simp add: distinct_neighbourPositions intro!: inj_on_subset[OF inj_on_flatIndex] dest: neighbourPositions_inGrid)

lemma flatIndex_mem_getNeighbours:
  assumes "inGrid nrows ncols q" and "nrows * ncols < 2 ^ 31"
  shows "flatIndex ncols q \<in> set (getNeighbours i j nrows ncols) \<longleftrightarrow> q \<in> set (neighbourPositions i j nrows ncols)"
  using assms(1) unfolding getNeighbours_positions[OF assms(2)]
  by (auto dest: flatIndex_inj neighbourPositions_inGrid)

lemma flatIndex_less:
  assumes "inGrid nrows ncols p" shows "flatIndex ncols p < nat (nrows * ncols)"
proof -
  obtain a b where p: "p = (a, b)" by (cases p)
  from assms have ab: "0 \<le> a" "a < nrows" "0 \<le> b" "b < ncols" by (simp_all add: inGrid_def p)
  have "a * ncols + b < (a + 1) * ncols" using ab by (simp add: algebra_simps)
  also have "\<dots> \<le> nrows * ncols" using ab by (intro mult_right_mono) simp_all
  finally have "a * ncols + b < nrows * ncols" .
  moreover have "0 \<le> a * ncols + b" using ab by simp
  ultimately show ?thesis by (simp add: flatIndex_def p)
qed

lemma length_getNeighbours:
  assumes "inGrid nrows ncols (i, j)" and "nrows * ncols < 2 ^ 31"
  shows "length (getNeighbours i j nrows ncols) =
           ((if 1 \<le> i then 1 else 0) + 1 + (if i + 1 < nrows then 1 else 0)) *
           ((if 1 \<le> j then 1 else 0) + 1 + (if j + 1 < ncols then 1 else 0)) - 1"
  using assms(1) unfolding getNeighbours_positions[OF assms(2)] length_map neighbourPositions_def window_explicit inGrid_def
  by (cases "1 \<le> i"; cases "i + 1 < nrows"; cases "1 \<le> j"; cases "j + 1 < ncols"; simp)

lemma getNeighbours_less:
  assumes "s \<in> set (getNeighbours i j nrows ncols)" and "nrows * ncols < 2 ^ 31"
  shows "s < nat (nrows * ncols)"
  using assms(1) unfolding getNeighbours_positions[OF assms(2)]
  by (auto dest!: neighbourPositions_inGrid intro: flatIndex_less)

lemma self_not_neighbour:
  assumes "inGrid nrows ncols p" and "nrows * ncols < 2 ^ 31"
  shows "flatIndex ncols p \<notin> set (getNeighbours (fst p) (snd p) nrows ncols)"
proof
  assume "flatIndex ncols p \<in> set (getNeighbours (fst p) (snd p) nrows ncols)"
  with assms have "p \<in> set (neighbourPositions (fst p) (snd p) nrows ncols)"
    by (simp add: flatIndex_mem_getNeighbours)
  moreover obtain i j where "p = (i, j)" by (cases p)
  ultimately have "(i, j) \<in> set (neighbourPositions i j nrows ncols)" by simp
  then show False by (simp add: set_neighbourPositions)
qed

text \<open>
  Claim C6, as amended. On a grid of fewer than \<open>2^31\<close> pixels, for a pixel at row \<open>i\<close>,
  column \<open>j\<close>: getNeighbours returns, without repetition, exactly the flattened indices of
  the positions of the 3x3 window around the pixel that lie in the grid, the centre left
  out; the pixel is not its own neighbour; an interior pixel has 8 neighbours; a border
  pixel has at most 5, exactly 3 or 5 when the grid has at least two rows and two columns,
  and at most 2 when the grid has a single row or a single column.
\<close>

theorem getNeighbours_window:
  assumes "inGrid nrows ncols (i, j)" and "nrows * ncols < 2 ^ 31"
  shows "set (getNeighbours i j nrows ncols) =
           {nat (m * ncols + n) | m n.
              \<bar>m - i\<bar> \<le> 1 \<and> \<bar>n - j\<bar> \<le> 1 \<and> (m, n) \<noteq> (i, j) \<and>
              0 \<le> m \<and> m < nrows \<and> 0 \<le> n \<and> n < ncols}
         \<and> distinct (getNeighbours i j nrows ncols)
         \<and> nat (i * ncols + j) \<notin> set (getNeighbours i j nrows ncols)
         \<and> (1 \<le> i \<and> i + 1 < nrows \<and> 1 \<le> j \<and> j + 1 < ncols
              \<longrightarrow> length (getNeighbours i j nrows ncols) = 8)
         \<and> (\<not> (1 \<le> i \<and> i + 1 < nrows \<and> 1 \<le> j \<and> j + 1 < ncols)
              \<longrightarrow> length (getNeighbours i j nrows ncols) \<le> 5)
         \<and> (\<not> (1 \<le> i \<and> i + 1 < nrows \<and> 1 \<le> j \<and> j + 1 < ncols) \<and> 2 \<le> nrows \<and> 2 \<le> ncols
              \<longrightarrow> length (getNeighbours i j nrows ncols) = 3 \<or> length (getNeighbours i j nrows ncols) = 5)
         \<and> (nrows = 1 \<or> ncols = 1 \<longrightarrow> length (getNeighbours i j nrows ncols) \<le> 2)"
proof -
  have set_eq: "set (getNeighbours i j nrows ncols) =
           {nat (m * ncols + n) | m n.
              \<bar>m - i\<bar> \<le> 1 \<and> \<bar>n - j\<bar> \<le> 1 \<and> (m, n) \<noteq> (i, j) \<and>
              0 \<le> m \<and> m < nrows \<and> 0 \<le> n \<and> n < ncols}"
  proof -
    have "set (getNeighbours i j nrows ncols)
            = flatIndex ncols ` set (neighbourPositions i j nrows ncols)"
      by (simp add: getNeighbours_positions[OF assms(2)])
    also have "\<dots> = {flatIndex ncols (m, n) | m n.
              \<bar>m - i\<bar> \<le> 1 \<and> \<bar>n - j\<bar> \<le> 1 \<and> (m, n) \<noteq> (i, j) \<and>
              0 \<le> m \<and> m < nrows \<and> 0 \<le> n \<and> n < ncols}"
      unfolding set_neighbourPositions inGrid_def by auto
    finally show ?thesis by (simp only: flatIndex_def fst_conv snd_conv)
  qed
  have self: "nat (i * ncols + j) \<notin> set (getNeighbours i j nrows ncols)"
  proof
    assume "nat (i * ncols + j) \<in> set (getNeighbours i j nrows ncols)"
    then have "flatIndex ncols (i, j) \<in> set (getNeighbours i j nrows ncols)"
      by (simp add: flatIndex_def)
    with assms have "(i, j) \<in> set (neighbourPositions i j nrows ncols)"
      by (simp add: flatIndex_mem_getNeighbours)
    then show False by (simp add: set_neighbourPositions)
  qed
  note len = length_getNeighbours[OF assms]
  from assms(1) have grid: "0 \<le> i" "i < nrows" "0 \<le> j" "j < ncols" by (simp_all add: inGrid_def)
  have thin: "nrows = 1 \<or> ncols = 1 \<longrightarrow> length (getNeighbours i j nrows ncols) \<le> 2"
    using len grid by (auto split: if_splits)
  have interior: "1 \<le> i \<and> i + 1 < nrows \<and> 1 \<le> j \<and> j + 1 < ncols
              \<longrightarrow> length (getNeighbours i j nrows ncols) = 8"
    using len by simp
  have border: "\<not> (1 \<le> i \<and> i + 1 < nrows \<and> 1 \<le> j \<and> j + 1 < ncols)
              \<longrightarrow> length (getNeighbours i j nrows ncols) \<le> 5"
    using len by (simp split: if_splits)
  have border2: "\<not> (1 \<le> i \<and> i + 1 < nrows \<and> 1 \<le> j \<and> j + 1 < ncols) \<and> 2 \<le> nrows \<and> 2 \<le> ncols
              \<longrightarrow> length (getNeighbours i j nrows ncols) = 3 \<or> length (getNeighbours i j nrows ncols) = 5"
  proof (intro impI)
    assume h: "\<not> (1 \<le> i \<and> i + 1 < nrows \<and> 1 \<le> j \<and> j + 1 < ncols) \<and> 2 \<le> nrows \<and> 2 \<le> ncols"
    then have "1 \<le> i \<or> i + 1 < nrows" "1 \<le> j \<or> j + 1 < ncols" by auto
    with h len show "length (getNeighbours i j nrows ncols) = 3 \<or> length (getNeighbours i j nrows ncols) = 5"
      by (auto split: if_splits)
  qed
  from set_eq distinct_getNeighbours[OF assms(2)] self interior border border2 thin show ?thesis by blast
qed

text \<open>The theorem at an interior pixel, a corner and an edge pixel.\<close>

text \<open>The theorem at an interior pixel, a corner and an edge pixel.\<close>

theorem getNeighbours_window_witness:
  "inGrid 3 3 (1, 1) \<and> length (getNeighbours 1 1 3 3) = 8
   \<and> inGrid 2 2 (0, 0) \<and> length (getNeighbours 0 0 2 2) = 3
   \<and> inGrid 2 3 (0, 1) \<and> length (getNeighbours 0 1 2 3) = 5
   \<and> (3 :: int) * 3 < 2 ^ 31 \<and> (2 :: int) * 2 < 2 ^ 31 \<and> (2 :: int) * 3 < 2 ^ 31"
proof -
  have a: "inGrid 3 3 (1, 1)" and b: "inGrid 2 2 (0, 0)" and c: "inGrid 2 3 (0, 1)"
    by (simp_all add: inGrid_def)
  have a': "(3 :: int) * 3 < 2 ^ 31" and b': "(2 :: int) * 2 < 2 ^ 31" and c': "(2 :: int) * 3 < 2 ^ 31"
    by simp_all
  have "length (getNeighbours 1 1 3 3) = 8"
    using getNeighbours_window[OF a a'] by simp
  moreover have "length (getNeighbours 0 0 2 2) = 3 \<or> length (getNeighbours 0 0 2 2) = 5"
    using getNeighbours_window[OF b b'] by simp
  then have "length (getNeighbours 0 0 2 2) = 3"
    by (simp add: getNeighbours_def wrap32_def toULong_def)
  moreover have "length (getNeighbours 0 1 2 3) = 3 \<or> length (getNeighbours 0 1 2 3) = 5"
    using getNeighbours_window[OF c c'] by simp
  then have "length (getNeighbours 0 1 2 3) = 5"
    by (simp add: getNeighbours_def wrap32_def toULong_def)
  ultimately show ?thesis using a b c by simp
qed

text \<open>
  Claim C6 as stated fails on a grid with a single row or column: the only pixel of the 1x1
  grid is a border pixel and has no neighbour at all.
\<close>

theorem border_neighbours_counterexample:
  "inGrid 1 1 (0, 0) \<and> \<not> (length (getNeighbours 0 0 1 1) = 3 \<or> length (getNeighbours 0 0 1 1) = 5)"
  by (simp add: inGrid_def getNeighbours_def)

section \<open>Variance and weights\<close>

lemma variance_fold:
  "fold (\<lambda>v (sum, squaredSum). (f_add ar sum v, f_add ar squaredSum (f_mul ar v v))) vals (a, b)
     = (fold (\<lambda>x acc. f_add ar acc x) vals a,
        fold (\<lambda>x acc. f_add ar acc x) (map (\<lambda>v. f_mul ar v v) vals) b)"
  by (induction vals arbitrary: a b) simp_all

lemma variance_Inr:
  assumes "variance ar (map (\<lambda>s. Y ! s) neighbors @ [Y ! r]) (f_eps ar) = Inr var"
  shows "var = spec_sigma2 ar Y r neighbors"
  using assms unfolding variance_def variance_fold spec_sigma2_def spec_sum_def
  by (simp add: Let_def split: if_splits)

lemma kernelLoop_eq:
  "kernelLoop ar gamma var ws acc
     = (map (\<lambda>w. f_exp ar (f_div ar (f_mul ar (f_neg ar gamma) w) (f_mul ar (f_two ar) var))) ws,
        fold (\<lambda>x a. f_add ar a x)
          (map (\<lambda>w. f_exp ar (f_div ar (f_mul ar (f_neg ar gamma) w) (f_mul ar (f_two ar) var))) ws) acc)"
  by (induction ws arbitrary: acc) (simp_all add: Let_def)

lemma normalizeLoop_Inr:
  assumes "normalizeLoop ar nz ws = Inr ws'"
  shows "ws' = map (\<lambda>w. f_div ar w nz) ws \<and> (\<forall>w\<in>set ws'. f_ge0 ar w)"
  using assms
proof (induction ws arbitrary: ws')
  case Nil
  then show ?case by simp
next
  case (Cons w ws)
  then show ?case
    by (auto simp add: Let_def split: if_splits sum.splits)
qed

lemma normalizeLoop_succeeds:
  assumes "\<forall>w\<in>set ws. f_ge0 ar (f_div ar w nz)"
  shows "normalizeLoop ar nz ws = Inr (map (\<lambda>w. f_div ar w nz) ws)"
  using assms by (induction ws) (simp_all add: Let_def)

lemma getWeights_Inr:
  assumes "getWeights ar Y r neighbors gamma = Inr ws"
  shows "variance ar (map (\<lambda>s. Y ! s) neighbors @ [Y ! r]) (f_eps ar) = Inr (spec_sigma2 ar Y r neighbors)
       \<and> fst (kernelLoop ar gamma (spec_sigma2 ar Y r neighbors)
                 (map (\<lambda>s. squaredDifference ar Y r s) neighbors) (f_zero ar))
           = map (spec_prenormalized ar Y gamma r neighbors) neighbors
       \<and> ws = spec_weights ar Y gamma r neighbors
       \<and> (\<forall>w\<in>set ws. f_ge0 ar w)"
proof (cases "variance ar (map (\<lambda>s. Y ! s) neighbors @ [Y ! r]) (f_eps ar)")
  case (Inl e)
  with assms show ?thesis by (simp add: getWeights_def Let_def)
next
  case (Inr var)
  note sigma = variance_Inr[OF Inr]
  let ?k = "\<lambda>w. f_exp ar (f_div ar (f_mul ar (f_neg ar gamma) w) (f_mul ar (f_two ar) var))"
  let ?d = "map (\<lambda>s. squaredDifference ar Y r s) neighbors"
  have k: "map ?k ?d = map (spec_prenormalized ar Y gamma r neighbors) neighbors"
    by (simp add: spec_prenormalized_def squaredDifference_def sigma Let_def)
  from assms Inr have "normalizeLoop ar (fold (\<lambda>x a. f_add ar a x) (map ?k ?d) (f_zero ar)) (map ?k ?d) = Inr ws"
    by (simp add: getWeights_def Let_def kernelLoop_eq)
  from normalizeLoop_Inr[OF this] have "ws = spec_weights ar Y gamma r neighbors" and "\<forall>w\<in>set ws. f_ge0 ar w"
    unfolding k by (simp_all add: spec_weights_def spec_sum_def comp_def)
  moreover have "fst (kernelLoop ar gamma var ?d (f_zero ar)) = map (spec_prenormalized ar Y gamma r neighbors) neighbors"
    by (simp only: kernelLoop_eq fst_conv k)
  ultimately show ?thesis using Inr sigma by simp
qed

lemma getWeights_Inr_length:
  assumes "getWeights ar values r neighbors gamma = Inr ws"
  shows "length ws = length neighbors"
  using getWeights_Inr[OF assms] by (simp add: spec_weights_def)





section \<open>The assembled system\<close>

lemma neighbourLoop_coefficients:
  "coefficients (neighbourLoop ar u v hasColor r nz P) = coefficients P @ rowEntries ar hasColor r nz"
  by (induction nz arbitrary: P) (auto simp add: rowEntries_def)

lemma neighbourLoop_bu:
  assumes "r < length (bu P)"
  shows "bu (neighbourLoop ar u v hasColor r nz P) = (bu P)[r := rhsFold ar u hasColor nz (bu P ! r)]"
  using assms
proof (induction nz arbitrary: P)
  case Nil
  then show ?case by (simp add: rhsFold_def)
next
  case (Cons a nz)
  obtain s w where a: "a = (s, w)" by (cases a)
  show ?case
  proof (cases "hasColor ! s")
    case True
    let ?P = "P\<lparr>bu := (bu P)[r := f_add ar (bu P ! r) (f_mul ar w (u ! s))],
                  bv := (bv P)[r := f_add ar (bv P ! r) (f_mul ar w (v ! s))]\<rparr>"
    have "r < length (bu ?P)" using Cons.prems by simp
    from Cons.IH[OF this] Cons.prems True show ?thesis
      by (simp add: a rhsFold_def)
  next
    case False
    let ?P = "P\<lparr>coefficients := coefficients P @ [(r, s, f_neg ar w)]\<rparr>"
    have "r < length (bu ?P)" using Cons.prems by simp
    from Cons.IH[OF this] False show ?thesis
      by (simp add: a rhsFold_def)
  qed
qed

lemma neighbourLoop_bv:
  assumes "r < length (bv P)"
  shows "bv (neighbourLoop ar u v hasColor r nz P) = (bv P)[r := rhsFold ar v hasColor nz (bv P ! r)]"
  using assms
proof (induction nz arbitrary: P)
  case Nil
  then show ?case by (simp add: rhsFold_def)
next
  case (Cons a nz)
  obtain s w where a: "a = (s, w)" by (cases a)
  show ?case
  proof (cases "hasColor ! s")
    case True
    let ?P = "P\<lparr>bu := (bu P)[r := f_add ar (bu P ! r) (f_mul ar w (u ! s))],
                  bv := (bv P)[r := f_add ar (bv P ! r) (f_mul ar w (v ! s))]\<rparr>"
    have "r < length (bv ?P)" using Cons.prems by simp
    from Cons.IH[OF this] Cons.prems True show ?thesis
      by (simp add: a rhsFold_def)
  next
    case False
    let ?P = "P\<lparr>coefficients := coefficients P @ [(r, s, f_neg ar w)]\<rparr>"
    have "r < length (bv ?P)" using Cons.prems by simp
    from Cons.IH[OF this] False show ?thesis
      by (simp add: a rhsFold_def)
  qed
qed

lemma pixelStep_Inr:
  assumes "pixelStep ar y u v hasColor gamma nrows ncols p P = Inr P'"
    and "inGrid nrows ncols p" and "nrows * ncols < 2 ^ 31"
    and "flatIndex ncols p < length (bu P)" and "flatIndex ncols p < length (bv P)"
  shows "(\<exists>ws. getWeights ar y (flatIndex ncols p) (getNeighbours (fst p) (snd p) nrows ncols) gamma = Inr ws)
       \<and> coefficients P' = coefficients P @ rowOf ar y hasColor gamma nrows ncols p
       \<and> bu P' = (bu P)[flatIndex ncols p :=
                     rhsFold ar u hasColor (pairsOf ar y gamma nrows ncols p) (bu P ! flatIndex ncols p)]
       \<and> bv P' = (bv P)[flatIndex ncols p :=
                     rhsFold ar v hasColor (pairsOf ar y gamma nrows ncols p) (bv P ! flatIndex ncols p)]"
proof (cases "getWeights ar y (flatIndex ncols p) (getNeighbours (fst p) (snd p) nrows ncols) gamma")
  case (Inl e)
  with assms(1) show ?thesis
    by (simp add: pixelStep_def Let_def index32[OF assms(2,3)])
next
  case (Inr ws)
  let ?r = "flatIndex ncols p"
  let ?P = "P\<lparr>coefficients := coefficients P @ [(?r, ?r, f_one ar)]\<rparr>"
  from Inr assms(1) have P': "P' = neighbourLoop ar u v hasColor ?r (zip (getNeighbours (fst p) (snd p) nrows ncols) ws) ?P"
    by (simp add: pixelStep_def Let_def index32[OF assms(2,3)])
  have pairs: "pairsOf ar y gamma nrows ncols p = zip (getNeighbours (fst p) (snd p) nrows ncols) ws"
    by (simp add: pairsOf_def weightsOf_def Inr)
  have "?r < length (bu ?P)" "?r < length (bv ?P)" using assms(4,5) by simp_all
  then show ?thesis
    using Inr by (simp add: P' neighbourLoop_coefficients neighbourLoop_bu neighbourLoop_bv rowOf_def pairs)
qed

lemma length_rhsUpdates: "length (rhsUpdates ncols g ps b) = length b"
  unfolding rhsUpdates_def by (induction ps arbitrary: b) simp_all

lemma pixelLoop_Inr:
  assumes "pixelLoop ar y u v hasColor gamma nrows ncols ps P = Inr P'"
    and "\<forall>p\<in>set ps. inGrid nrows ncols p" and "nrows * ncols < 2 ^ 31"
    and "\<forall>p\<in>set ps. flatIndex ncols p < length (bu P) \<and> flatIndex ncols p < length (bv P)"
  shows "(\<forall>p\<in>set ps. \<exists>ws. getWeights ar y (flatIndex ncols p) (getNeighbours (fst p) (snd p) nrows ncols) gamma = Inr ws)
       \<and> coefficients P' = coefficients P @ concat (map (rowOf ar y hasColor gamma nrows ncols) ps)
       \<and> bu P' = rhsUpdates ncols (\<lambda>p. rhsFold ar u hasColor (pairsOf ar y gamma nrows ncols p)) ps (bu P)
       \<and> bv P' = rhsUpdates ncols (\<lambda>p. rhsFold ar v hasColor (pairsOf ar y gamma nrows ncols p)) ps (bv P)"
  using assms(1,2,4)
proof (induction ps arbitrary: P)
  case Nil
  then show ?case by (simp add: rhsUpdates_def)
next
  case (Cons p ps)
  from Cons.prems(1) obtain Q where Q: "pixelStep ar y u v hasColor gamma nrows ncols p P = Inr Q"
    and rest: "pixelLoop ar y u v hasColor gamma nrows ncols ps Q = Inr P'"
    by (auto split: sum.splits)
  from Cons.prems(2) have g: "inGrid nrows ncols p" and gs: "\<forall>q\<in>set ps. inGrid nrows ncols q" by simp_all
  from Cons.prems(3) have r: "flatIndex ncols p < length (bu P)" "flatIndex ncols p < length (bv P)"
    by simp_all
  note step = pixelStep_Inr[OF Q g assms(3) r]
  have "\<forall>q\<in>set ps. flatIndex ncols q < length (bu Q) \<and> flatIndex ncols q < length (bv Q)"
    using Cons.prems(3) step by simp
  from Cons.IH[OF rest gs this] step show ?case
    by (simp add: rhsUpdates_def)
qed

lemma rhsUpdates_other:
  assumes "r \<notin> flatIndex ncols ` set ps"
  shows "rhsUpdates ncols g ps b ! r = b ! r"
  using assms unfolding rhsUpdates_def
  by (induction ps arbitrary: b) auto

lemma rhsUpdates_nth:
  assumes "distinct (map (flatIndex ncols) ps)" and "p \<in> set ps" and "flatIndex ncols p < length b"
  shows "rhsUpdates ncols g ps b ! flatIndex ncols p = g p (b ! flatIndex ncols p)"
  using assms
proof (induction ps arbitrary: b)
  case Nil
  then show ?case by simp
next
  case (Cons q ps)
  let ?b = "b[flatIndex ncols q := g q (b ! flatIndex ncols q)]"
  have unfold: "rhsUpdates ncols g (q # ps) b = rhsUpdates ncols g ps ?b"
    by (simp add: rhsUpdates_def)
  show ?case
  proof (cases "p = q")
    case True
    with Cons.prems(1) have "flatIndex ncols p \<notin> flatIndex ncols ` set ps" by auto
    from rhsUpdates_other[OF this, of g ?b] Cons.prems(3) True show ?thesis
      by (simp add: unfold)
  next
    case False
    with Cons.prems(2) have p: "p \<in> set ps" by simp
    from Cons.prems(1) have "flatIndex ncols q \<notin> flatIndex ncols ` set ps" by simp
    with p have ne: "flatIndex ncols p \<noteq> flatIndex ncols q" by (metis imageI)
    have "flatIndex ncols p < length ?b" using Cons.prems(3) by simp
    from Cons.IH[OF _ p this] Cons.prems(1) ne show ?thesis
      by (simp add: unfold)
  qed
qed

lemma coeff_setFromTriplets:
  "coeff ar (setFromTriplets A ts) r s =
     (case entryValues ts r s of [] \<Rightarrow> f_zero ar | x # xs \<Rightarrow> fold (\<lambda>y acc. f_add ar acc y) xs x)"
  by (simp add: coeff_def setFromTriplets_def entryValues_def)

lemma entryValues_concat:
  "entryValues (concat xss) r s = concat (map (\<lambda>xs. entryValues xs r s) xss)"
  by (induction xss) (simp_all add: entryValues_def)

lemma concat_single:
  assumes "distinct (map f ps)" and "p \<in> set ps"
  shows "concat (map (\<lambda>q. if f q = f p then g q else []) ps) = g p"
  using assms
proof (induction ps)
  case Nil
  then show ?case by simp
next
  case (Cons q ps)
  show ?case
  proof (cases "q = p")
    case True
    with Cons.prems(1) have "f p \<notin> f ` set ps" by simp
    then have "\<forall>x\<in>set ps. f x \<noteq> f p" by (metis imageI)
    then have "concat (map (\<lambda>q. if f q = f p then g q else []) ps) = []"
      by (induction ps) auto
    with True show ?thesis by simp
  next
    case False
    with Cons.prems(2) have p: "p \<in> set ps" by simp
    from Cons.prems(1) have "f q \<notin> f ` set ps" by simp
    with p have "f q \<noteq> f p" by (metis imageI)
    with Cons.IH[OF _ p] Cons.prems(1) show ?thesis by simp
  qed
qed

lemma entryValues_rowEntries_other_row:
  "r' \<noteq> r \<Longrightarrow> entryValues (rowEntries ar hasColor r' nz) r s = []"
  by (induction nz) (auto simp add: entryValues_def rowEntries_def)

lemma entryValues_rowOf_other_row:
  "flatIndex ncols p \<noteq> r \<Longrightarrow> entryValues (rowOf ar y hasColor gamma nrows ncols p) r s = []"
  using entryValues_rowEntries_other_row[of "flatIndex ncols p" r ar hasColor _ s]
  by (simp add: rowOf_def entryValues_def)

lemma entryValues_rows:
  assumes "distinct (map (flatIndex ncols) ps)" and "p \<in> set ps"
  shows "entryValues (concat (map (rowOf ar y hasColor gamma nrows ncols) ps)) (flatIndex ncols p) s
           = entryValues (rowOf ar y hasColor gamma nrows ncols p) (flatIndex ncols p) s"
proof -
  have "entryValues (concat (map (rowOf ar y hasColor gamma nrows ncols) ps)) (flatIndex ncols p) s
          = concat (map (\<lambda>q. entryValues (rowOf ar y hasColor gamma nrows ncols q) (flatIndex ncols p) s) ps)"
    by (simp add: entryValues_concat comp_def)
  also have "\<dots> = concat (map (\<lambda>q. if flatIndex ncols q = flatIndex ncols p
                                         then entryValues (rowOf ar y hasColor gamma nrows ncols q) (flatIndex ncols p) s
                                         else []) ps)"
    by (intro arg_cong[where f = concat] map_cong refl) (simp add: entryValues_rowOf_other_row)
  also have "\<dots> = entryValues (rowOf ar y hasColor gamma nrows ncols p) (flatIndex ncols p) s"
    by (rule concat_single[OF assms])
  finally show ?thesis .
qed

lemma entryValues_rowEntries_absent:
  assumes "\<forall>w. (s, w) \<in> set nz \<longrightarrow> hasColor ! s"
  shows "entryValues (rowEntries ar hasColor r nz) r s = []"
  using assms by (induction nz) (auto simp add: entryValues_def rowEntries_def)

lemma entryValues_rowEntries_present:
  assumes "distinct (map fst nz)" and "(s, w) \<in> set nz" and "\<not> hasColor ! s"
  shows "entryValues (rowEntries ar hasColor r nz) r s = [f_neg ar w]"
  using assms
proof (induction nz)
  case Nil
  then show ?case by simp
next
  case (Cons a nz)
  obtain s' w' where a: "a = (s', w')" by (cases a)
  show ?case
  proof (cases "a = (s, w)")
    case True
    with Cons.prems(1) have "\<forall>w. (s, w) \<in> set nz \<longrightarrow> hasColor ! s"
      by (auto simp add: image_iff)
    from entryValues_rowEntries_absent[OF this, of ar r] True Cons.prems(3) show ?thesis
      by (simp add: entryValues_def rowEntries_def)
  next
    case False
    with Cons.prems(2) have mem: "(s, w) \<in> set nz" by simp
    then have "s \<in> fst ` set nz" by force
    with Cons.prems(1) have "s' \<noteq> s" by (auto simp add: a)
    with Cons.IH[OF _ mem Cons.prems(3)] Cons.prems(1) show ?thesis
      by (simp add: entryValues_def rowEntries_def a)
  qed
qed

lemma entryValues_rowOf_diag:
  assumes "flatIndex ncols p \<notin> fst ` set (pairsOf ar y gamma nrows ncols p)"
  shows "entryValues (rowOf ar y hasColor gamma nrows ncols p) (flatIndex ncols p) (flatIndex ncols p)
           = [f_one ar]"
proof -
  have "\<forall>w. (flatIndex ncols p, w) \<in> set (pairsOf ar y gamma nrows ncols p) \<longrightarrow> hasColor ! flatIndex ncols p"
    using assms by force
  from entryValues_rowEntries_absent[OF this, of ar "flatIndex ncols p"] show ?thesis
    by (simp add: rowOf_def entryValues_def)
qed

lemma entryValues_rowOf_off:
  assumes "s \<noteq> flatIndex ncols p"
  shows "entryValues (rowOf ar y hasColor gamma nrows ncols p) (flatIndex ncols p) s
           = entryValues (rowEntries ar hasColor (flatIndex ncols p) (pairsOf ar y gamma nrows ncols p))
               (flatIndex ncols p) s"
  using assms by (simp add: rowOf_def entryValues_def)

lemma set_pixels: "set (pixels nrows ncols) = {p. inGrid nrows ncols p}"
  by (auto simp add: pixels_def inGrid_def)

lemma distinct_pixels: "distinct (map (flatIndex ncols) (pixels nrows ncols))"
proof -
  have "distinct (pixels nrows ncols)"
    unfolding pixels_def by (intro distinct_product) simp_all
  moreover have "inj_on (flatIndex ncols) (set (pixels nrows ncols))"
    unfolding set_pixels by (rule inj_on_flatIndex)
  ultimately show ?thesis by (simp add: distinct_map)
qed

lemma to1D_wf:
  assumes "wfMat m"
  shows "to1D m = concat m"
proof -
  have "map (\<lambda>row. take (nat (cols m)) row) m = m"
    using assms by (intro map_idI) (auto simp add: wfMat_def list_all_iff)
  then show ?thesis by (simp add: to1D_def)
qed

lemma length_concat_uniform:
  "\<forall>row\<in>set m. length row = n \<Longrightarrow> length (concat m) = length m * n"
  by (induction m) simp_all

lemma length_to1D:
  assumes "wfMat m"
  shows "length (to1D m) = nat (rows m * cols m)"
proof -
  have "\<forall>row\<in>set m. length row = nat (cols m)"
    using assms by (auto simp add: wfMat_def list_all_iff)
  from length_concat_uniform[OF this] have "length (concat m) = length m * nat (cols m)" .
  moreover have "0 \<le> cols m" by (simp add: cols_def split: list.splits)
  ultimately show ?thesis
    by (simp add: to1D_wf[OF assms] rows_def nat_mult_distrib)
qed

lemma setupProblem_unfold:
  "setupProblem ar bgr2yuv Y scribbles maskMat gamma =
     (case pixelLoop ar (to1D Y) (scribbleU bgr2yuv scribbles) (scribbleV bgr2yuv scribbles)
             (hasColorOf maskMat) gamma (rows Y) (cols Y) (pixels (rows Y) (cols Y))
             \<lparr>coefficients = [], bu = replicate (nat (wrap32 (rows Y * cols Y))) (f_zero ar),
                bv = replicate (nat (wrap32 (rows Y * cols Y))) (f_zero ar)\<rparr> of
        Inl e \<Rightarrow> Inl e
      | Inr P' \<Rightarrow> Inr (setFromTriplets (resize (nat (wrap32 (rows Y * cols Y))) (nat (wrap32 (rows Y * cols Y))))
                          (coefficients P'), bu P', bv P'))"
  by (simp add: setupProblem_def Let_def split_def scribbleU_def scribbleV_def hasColorOf_def pixels_def)

lemma grid_size_wrap:
  assumes "rows Y * cols Y < 2 ^ 31"
  shows "wrap32 (rows Y * cols Y) = rows Y * cols Y"
proof -
  have "0 \<le> rows Y" "0 \<le> cols Y" by (simp_all add: rows_def cols_def split: list.splits)
  then have "0 \<le> rows Y * cols Y" by simp
  with assms show ?thesis by (intro wrap32_id) simp_all
qed

lemma setupProblem_Inr:
  assumes "setupProblem ar bgr2yuv Y scribbles maskMat gamma = Inr (A, b_u, b_v)"
    and "rows Y * cols Y < 2 ^ 31"
  shows "(\<forall>p\<in>set (pixels (rows Y) (cols Y)).
            \<exists>ws. getWeights ar (to1D Y) (flatIndex (cols Y) p)
                   (getNeighbours (fst p) (snd p) (rows Y) (cols Y)) gamma = Inr ws)
       \<and> A = setFromTriplets (resize (nat (rows Y * cols Y)) (nat (rows Y * cols Y)))
               (concat (map (rowOf ar (to1D Y) (hasColorOf maskMat) gamma (rows Y) (cols Y))
                          (pixels (rows Y) (cols Y))))
       \<and> b_u = rhsUpdates (cols Y)
                 (\<lambda>p. rhsFold ar (scribbleU bgr2yuv scribbles) (hasColorOf maskMat)
                        (pairsOf ar (to1D Y) gamma (rows Y) (cols Y) p))
                 (pixels (rows Y) (cols Y)) (replicate (nat (rows Y * cols Y)) (f_zero ar))
       \<and> b_v = rhsUpdates (cols Y)
                 (\<lambda>p. rhsFold ar (scribbleV bgr2yuv scribbles) (hasColorOf maskMat)
                        (pairsOf ar (to1D Y) gamma (rows Y) (cols Y) p))
                 (pixels (rows Y) (cols Y)) (replicate (nat (rows Y * cols Y)) (f_zero ar))"
proof -
  let ?N = "nat (rows Y * cols Y)"
  let ?P = "\<lparr>coefficients = [], bu = replicate ?N (f_zero ar), bv = replicate ?N (f_zero ar)\<rparr>"
  let ?u = "scribbleU bgr2yuv scribbles" and ?v = "scribbleV bgr2yuv scribbles"
  from assms(1) obtain P' where
    loop: "pixelLoop ar (to1D Y) ?u ?v (hasColorOf maskMat) gamma (rows Y) (cols Y)
             (pixels (rows Y) (cols Y)) ?P = Inr P'"
    and res: "A = setFromTriplets (resize ?N ?N) (coefficients P')" "b_u = bu P'" "b_v = bv P'"
    unfolding setupProblem_unfold grid_size_wrap[OF assms(2)]
    by (auto split: sum.splits)
  have g: "\<forall>p\<in>set (pixels (rows Y) (cols Y)). inGrid (rows Y) (cols Y) p"
    by (simp add: set_pixels)
  have "\<forall>p\<in>set (pixels (rows Y) (cols Y)).
          flatIndex (cols Y) p < length (bu ?P) \<and> flatIndex (cols Y) p < length (bv ?P)"
    by (simp add: set_pixels flatIndex_less)
  from pixelLoop_Inr[OF loop g assms(2) this] res show ?thesis by simp
qed

lemma setupProblem_row:
  assumes ok: "setupProblem ar bgr2yuv Y scribbles maskMat gamma = Inr (A, b_u, b_v)"
    and bound: "rows Y * cols Y < 2 ^ 31"
    and p: "inGrid (rows Y) (cols Y) p"
  shows "\<exists>ws. getWeights ar (to1D Y) (flatIndex (cols Y) p)
                (getNeighbours (fst p) (snd p) (rows Y) (cols Y)) gamma = Inr ws
       \<and> length ws = length (getNeighbours (fst p) (snd p) (rows Y) (cols Y))
       \<and> coeff ar A (flatIndex (cols Y) p) (flatIndex (cols Y) p) = f_one ar
       \<and> (\<forall>s w. (s, w) \<in> set (zip (getNeighbours (fst p) (snd p) (rows Y) (cols Y)) ws)
                  \<and> \<not> hasColorOf maskMat ! s \<longrightarrow> coeff ar A (flatIndex (cols Y) p) s = f_neg ar w)
       \<and> (\<forall>s. s \<noteq> flatIndex (cols Y) p
                \<and> (s \<notin> set (getNeighbours (fst p) (snd p) (rows Y) (cols Y)) \<or> hasColorOf maskMat ! s)
                \<longrightarrow> coeff ar A (flatIndex (cols Y) p) s = f_zero ar)
       \<and> b_u ! flatIndex (cols Y) p
            = rhsFold ar (scribbleU bgr2yuv scribbles) (hasColorOf maskMat)
                (zip (getNeighbours (fst p) (snd p) (rows Y) (cols Y)) ws) (f_zero ar)
       \<and> b_v ! flatIndex (cols Y) p
            = rhsFold ar (scribbleV bgr2yuv scribbles) (hasColorOf maskMat)
                (zip (getNeighbours (fst p) (snd p) (rows Y) (cols Y)) ws) (f_zero ar)"
proof -
  let ?r = "flatIndex (cols Y) p"
  let ?n = "getNeighbours (fst p) (snd p) (rows Y) (cols Y)"
  let ?hc = "hasColorOf maskMat"
  let ?ps = "pixels (rows Y) (cols Y)"
  let ?N = "nat (rows Y * cols Y)"
  note R = setupProblem_Inr[OF ok bound]
  from p have mem: "p \<in> set ?ps" by (simp add: set_pixels)
  with R obtain ws where ws: "getWeights ar (to1D Y) ?r ?n gamma = Inr ws" by blast
  have len: "length ws = length ?n" by (rule getWeights_Inr_length[OF ws])
  have pairs: "pairsOf ar (to1D Y) gamma (rows Y) (cols Y) p = zip ?n ws"
    by (simp add: pairsOf_def weightsOf_def ws)
  have keys: "map fst (zip ?n ws) = ?n" using len by simp
  have vals: "entryValues (entries A) ?r s = entryValues (rowOf ar (to1D Y) ?hc gamma (rows Y) (cols Y) p) ?r s" for s
    using R entryValues_rows[OF distinct_pixels mem] by (simp add: setFromTriplets_def resize_def)
  have co: "coeff ar A ?r s = (case entryValues (entries A) ?r s of [] \<Rightarrow> f_zero ar
                               | x # xs \<Rightarrow> fold (\<lambda>y acc. f_add ar acc y) xs x)" for s
    by (simp add: coeff_def entryValues_def)
  have "?r \<notin> fst ` set (zip ?n ws)"
    using self_not_neighbour[OF p bound] keys by (metis set_map)
  then have diag: "coeff ar A ?r ?r = f_one ar"
    by (simp add: co vals entryValues_rowOf_diag pairs)
  have present: "coeff ar A ?r s = f_neg ar w" if "(s, w) \<in> set (zip ?n ws) \<and> \<not> ?hc ! s" for s w
  proof -
    from that have "s \<in> set ?n" by (auto dest: set_zip_leftD)
    with self_not_neighbour[OF p bound] have "s \<noteq> ?r" by auto
    moreover have "distinct (map fst (zip ?n ws))"
      by (simp only: keys distinct_getNeighbours[OF bound])
    from entryValues_rowEntries_present[OF this, of s w ?hc ar ?r] that
    have "entryValues (rowEntries ar ?hc ?r (zip ?n ws)) ?r s = [f_neg ar w]" by simp
    ultimately show ?thesis
      by (simp add: co vals entryValues_rowOf_off pairs)
  qed
  have absent: "coeff ar A ?r s = f_zero ar" if "s \<noteq> ?r \<and> (s \<notin> set ?n \<or> ?hc ! s)" for s
  proof -
    from that have "\<forall>w. (s, w) \<in> set (zip ?n ws) \<longrightarrow> ?hc ! s"
      by (auto dest: set_zip_leftD)
    from entryValues_rowEntries_absent[OF this] that show ?thesis
      by (simp add: co vals entryValues_rowOf_off pairs)
  qed
  have r: "?r < ?N" by (rule flatIndex_less[OF p])
  have bu: "b_u ! ?r = rhsFold ar (scribbleU bgr2yuv scribbles) ?hc (zip ?n ws) (f_zero ar)"
    using R rhsUpdates_nth[OF distinct_pixels mem, of "replicate ?N (f_zero ar)"] r by (simp add: pairs)
  have bv: "b_v ! ?r = rhsFold ar (scribbleV bgr2yuv scribbles) ?hc (zip ?n ws) (f_zero ar)"
    using R rhsUpdates_nth[OF distinct_pixels mem, of "replicate ?N (f_zero ar)"] r by (simp add: pairs)
  from ws len diag present absent bu bv show ?thesis by blast
qed

text \<open>
  The arithmetic of exact reals on concrete inputs: its fields, the weights on a flat plane
  of two pixels, and the system of a 1x2 image of luminance 0 whose second pixel is
  scribbled with \<open>(U, V) = (20, 40)\<close>.
\<close>

lemma getWeights_flat2:
  "getWeights exactArith [0, 0] 0 [Suc 0] 2 = Inr [1]"
  "getWeights exactArith [0, 0] (Suc 0) [0] 2 = Inr [1]"
  by (simp_all add: getWeights_def variance_def squaredDifference_def exactArith_def Let_def)

lemma exact_fields:
  "f_zero exactArith = 0" "f_one exactArith = 1" "f_two exactArith = 2" "f_eps exactArith = 0.01"
  "f_add exactArith a b = a + b" "f_sub exactArith a b = a - b" "f_mul exactArith a b = a * b"
  "f_div exactArith a b = a / b" "f_neg exactArith a = - a" "f_exp exactArith a = exp a"
  "f_ge0 exactArith a = (0 \<le> a)" "f_size exactArith k = real k"
  by (simp_all add: exactArith_def)

lemma setupProblem_two_pixels:
  "setupProblem exactArith (\<lambda>_. ([[0, 0]], [[10, 20]], [[30, 40]])) [[0, 0]]
     [[(0, 0, 0), (0, 0, 0)]] [[0, 255]] 2
     = Inr (\<lparr>outerSize = 2, innerSize = 2, entries = [(0, 0, 1), (1, 1, 1), (1, 0, - 1)]\<rparr>,
            [20, 0], [40, 0])"
proof -
  have n: "getNeighbours 0 0 1 2 = [Suc 0]" "getNeighbours 0 1 1 2 = [0]"
    by (simp_all add: getNeighbours_def toULong_def wrap32_def)
  have dims: "rows [[0, 0 :: real]] = 1" "cols [[0, 0 :: real]] = 2"
    by (simp_all add: rows_def cols_def)
  have flat: "to1D [[0, 0 :: real]] = [0, 0]"
    "scribbleU (\<lambda>_. ([[0, 0 :: real]], [[10, 20 :: real]], [[30, 40 :: real]])) [[(0, 0, 0), (0, 0, 0)]] = [10, 20]"
    "scribbleV (\<lambda>_. ([[0, 0 :: real]], [[10, 20 :: real]], [[30, 40 :: real]])) [[(0, 0, 0), (0, 0, 0)]] = [30, 40]"
    "hasColorOf [[0, 255]] = [False, True]"
    by (simp_all add: to1D_def cols_def scribbleU_def scribbleV_def hasColorOf_def)
  have px: "pixels 1 2 = [(0, 0), (0, 1)]"
    by (simp add: pixels_def upto_rec1)
  have size: "nat (wrap32 (1 * 2)) = 2" by (simp add: wrap32_def)
  have zeros: "replicate 2 (f_zero exactArith) = [0, 0 :: real]"
    by (simp add: numeral_2_eq_2 exact_fields)
  have loop: "pixelLoop exactArith [0, 0] [10, 20] [30, 40] [False, True] 2 1 2 [(0, 0), (0, 1)]
                \<lparr>coefficients = [], bu = [0, 0], bv = [0, 0]\<rparr>
              = Inr \<lparr>coefficients = [(0, 0, 1), (1, 1, 1), (1, 0, - 1)], bu = [20, 0], bv = [40, 0]\<rparr>"
    by (simp add: pixelStep_def Let_def n wrap32_def toULong_def getWeights_flat2 exact_fields)
  show ?thesis
    unfolding setupProblem_unfold dims size zeros flat px loop
    by (simp add: resize_def setFromTriplets_def)
qed

text \<open>
  Claim C1. Whenever setupProblem returns a system for an image of fewer than \<open>2^31\<close>
  pixels whose luminance, chrominance and mask planes have the size of the grid, in any
  arithmetic and for every pixel \<open>r\<close> of the grid, whether or not the mask holds at \<open>r\<close>
  itself: the reads of the row are within range; \<open>A[r,r] = 1\<close>; for each neighbour \<open>s\<close> with
  weight \<open>w\<close> and a false mask, \<open>A[r,s] = -w\<close>; for each neighbour with a true mask
  \<open>A[r,s]\<close> is zero, and \<open>bu[r]\<close> and \<open>bv[r]\<close> are zero with \<open>w * u[s]\<close> and \<open>w * v[s]\<close>
  added for these neighbours in their order; every other entry of the row is zero.
\<close>

theorem setupProblem_system:
  assumes "setupProblem ar bgr2yuv Y scribbles maskMat gamma = Inr (A, b_u, b_v)"
    and "rows Y * cols Y < 2 ^ 31"
    and "length (to1D Y) = nat (rows Y * cols Y)"
    and "length (scribbleU bgr2yuv scribbles) = nat (rows Y * cols Y)"
    and "length (scribbleV bgr2yuv scribbles) = nat (rows Y * cols Y)"
    and "length (hasColorOf maskMat) = nat (rows Y * cols Y)"
    and "inGrid (rows Y) (cols Y) (i, j)"
  shows "let r = nat (i * cols Y + j);
             neighbors = getNeighbours i j (rows Y) (cols Y);
             hasColor = hasColorOf maskMat;
             u = scribbleU bgr2yuv scribbles;
             v = scribbleV bgr2yuv scribbles
         in r < length (to1D Y) \<and> (\<forall>s\<in>set neighbors. s < length (to1D Y))
            \<and> (\<exists>weights. getWeights ar (to1D Y) r neighbors gamma = Inr weights
                 \<and> length weights = length neighbors
                 \<and> coeff ar A r r = f_one ar
                 \<and> (\<forall>s w. (s, w) \<in> set (zip neighbors weights) \<and> \<not> hasColor ! s
                            \<longrightarrow> coeff ar A r s = f_neg ar w)
                 \<and> (\<forall>s w. (s, w) \<in> set (zip neighbors weights) \<and> hasColor ! s
                            \<longrightarrow> coeff ar A r s = f_zero ar)
                 \<and> (\<forall>s. s \<noteq> r \<and> s \<notin> set neighbors \<longrightarrow> coeff ar A r s = f_zero ar)
                 \<and> b_u ! r = fold (\<lambda>(s, w) acc. f_add ar acc (f_mul ar w (u ! s)))
                                (filter (\<lambda>(s, w). hasColor ! s) (zip neighbors weights)) (f_zero ar)
                 \<and> b_v ! r = fold (\<lambda>(s, w) acc. f_add ar acc (f_mul ar w (v ! s)))
                                (filter (\<lambda>(s, w). hasColor ! s) (zip neighbors weights)) (f_zero ar))"
proof -
  let ?r = "nat (i * cols Y + j)"
  let ?n = "getNeighbours i j (rows Y) (cols Y)"
  let ?hc = "hasColorOf maskMat"
  note ok = assms(1) and bound = assms(2) and p = assms(7)
  have r: "flatIndex (cols Y) (i, j) = ?r" by (simp add: flatIndex_def)
  have inr: "?r < length (to1D Y)"
    using flatIndex_less[OF p] by (simp add: r assms(3))
  have inn: "\<forall>s\<in>set ?n. s < length (to1D Y)"
    using getNeighbours_less[OF _ bound] by (simp add: assms(3))
  from setupProblem_row[OF ok bound p] obtain ws where
    ws: "getWeights ar (to1D Y) ?r ?n gamma = Inr ws" "length ws = length ?n"
    and diag: "coeff ar A ?r ?r = f_one ar"
    and present: "\<forall>s w. (s, w) \<in> set (zip ?n ws) \<and> \<not> ?hc ! s \<longrightarrow> coeff ar A ?r s = f_neg ar w"
    and absent: "\<forall>s. s \<noteq> ?r \<and> (s \<notin> set ?n \<or> ?hc ! s) \<longrightarrow> coeff ar A ?r s = f_zero ar"
    and rhs: "b_u ! ?r = rhsFold ar (scribbleU bgr2yuv scribbles) ?hc (zip ?n ws) (f_zero ar)"
             "b_v ! ?r = rhsFold ar (scribbleV bgr2yuv scribbles) ?hc (zip ?n ws) (f_zero ar)"
    unfolding r fst_conv snd_conv by blast
  have known: "\<forall>s w. (s, w) \<in> set (zip ?n ws) \<and> ?hc ! s \<longrightarrow> coeff ar A ?r s = f_zero ar"
  proof (intro allI impI)
    fix s w assume h: "(s, w) \<in> set (zip ?n ws) \<and> ?hc ! s"
    then have "s \<in> set ?n" by (auto dest: set_zip_leftD)
    with self_not_neighbour[OF p bound] have "s \<noteq> ?r" by (auto simp add: r)
    with h absent show "coeff ar A ?r s = f_zero ar" by blast
  qed
  from absent have other: "\<forall>s. s \<noteq> ?r \<and> s \<notin> set ?n \<longrightarrow> coeff ar A ?r s = f_zero ar" by blast
  from inr inn ws diag present known other rhs show ?thesis
    unfolding Let_def rhsFold_def by blast
qed

text \<open>The theorem on that 1x2 image, in exact arithmetic.\<close>

theorem setupProblem_system_witness:
  "setupProblem exactArith (\<lambda>_. ([[0, 0]], [[10, 20]], [[30, 40]])) [[0, 0]]
     [[(0, 0, 0), (0, 0, 0)]] [[0, 255]] 2
     = Inr (\<lparr>outerSize = 2, innerSize = 2, entries = [(0, 0, 1), (1, 1, 1), (1, 0, - 1)]\<rparr>,
            [20, 0], [40, 0])
   \<and> rows [[0, 0 :: real]] * cols [[0, 0 :: real]] < 2 ^ 31
   \<and> length (to1D [[0, 0 :: real]]) = nat (rows [[0, 0 :: real]] * cols [[0, 0 :: real]])
   \<and> length (hasColorOf [[0, 255]]) = nat (rows [[0, 0 :: real]] * cols [[0, 0 :: real]])
   \<and> inGrid (rows [[0, 0 :: real]]) (cols [[0, 0 :: real]]) (0, 0)
   \<and> inGrid (rows [[0, 0 :: real]]) (cols [[0, 0 :: real]]) (0, 1)
   \<and> coeff exactArith \<lparr>outerSize = 2, innerSize = 2, entries = [(0, 0, 1), (1, 1, 1), (1, 0, - 1)]\<rparr> 0 0 = 1
   \<and> coeff exactArith \<lparr>outerSize = 2, innerSize = 2, entries = [(0, 0, 1), (1, 1, 1), (1, 0, - 1)]\<rparr> 0 1 = 0
   \<and> coeff exactArith \<lparr>outerSize = 2, innerSize = 2, entries = [(0, 0, 1), (1, 1, 1), (1, 0, - 1)]\<rparr> 1 1 = 1
   \<and> coeff exactArith \<lparr>outerSize = 2, innerSize = 2, entries = [(0, 0, 1), (1, 1, 1), (1, 0, - 1)]\<rparr> 1 0 = - 1"
proof -
  let ?Y = "[[0, 0 :: real]]"
  let ?f = "\<lambda>_ :: image. ([[0, 0 :: real]], [[10, 20 :: real]], [[30, 40 :: real]])"
  let ?s = "[[(0, 0, 0), (0, 0, 0)]] :: image"
  let ?m = "[[0, 255 :: uchar]]"
  let ?A = "\<lparr>outerSize = 2, innerSize = 2, entries = [(0, 0, 1 :: real), (1, 1, 1), (1, 0, - 1)]\<rparr>"
  note sp = setupProblem_two_pixels
  have dims: "rows ?Y = 1" "cols ?Y = 2" by (simp_all add: rows_def cols_def)
  have bound: "rows ?Y * cols ?Y < 2 ^ 31" by (simp add: dims)
  have ly: "length (to1D ?Y) = nat (rows ?Y * cols ?Y)" by (simp add: dims to1D_def)
  have lu: "length (scribbleU ?f ?s) = nat (rows ?Y * cols ?Y)"
    by (simp add: dims scribbleU_def to1D_def cols_def)
  have lv: "length (scribbleV ?f ?s) = nat (rows ?Y * cols ?Y)"
    by (simp add: dims scribbleV_def to1D_def cols_def)
  have hc: "hasColorOf ?m = [False, True]" by (simp add: hasColorOf_def to1D_def cols_def)
  have lm: "length (hasColorOf ?m) = nat (rows ?Y * cols ?Y)" by (simp add: dims hc)
  have g0: "inGrid (rows ?Y) (cols ?Y) (0, 0)" and g1: "inGrid (rows ?Y) (cols ?Y) (0, 1)"
    by (simp_all add: dims inGrid_def)
  have n: "getNeighbours 0 0 1 2 = [Suc 0]" "getNeighbours 0 1 1 2 = [0]"
    by (simp_all add: getNeighbours_def toULong_def wrap32_def)
  have row0: "coeff exactArith ?A 0 0 = 1 \<and> coeff exactArith ?A 0 1 = 0"
    using setupProblem_system[OF sp bound ly lu lv lm g0]
    by (auto simp add: Let_def dims n hc to1D_def getWeights_flat2 exact_fields)
  have row1: "coeff exactArith ?A 1 1 = 1 \<and> coeff exactArith ?A 1 0 = - 1"
    using setupProblem_system[OF sp bound ly lu lv lm g1]
    by (auto simp add: Let_def dims n hc to1D_def getWeights_flat2 exact_fields)
  from sp bound ly lm g0 g1 row0 row1 show ?thesis by (intro conjI) simp_all
qed





lemma rowEntries_mem:
  "(r, s, x) \<in> set (rowEntries ar hasColor r nz) \<longleftrightarrow> (\<exists>w. (s, w) \<in> set nz \<and> x = f_neg ar w) \<and> \<not> hasColor ! s"
  by (induction nz) (auto simp add: rowEntries_def)

lemma entries_row_mem:
  assumes ok: "setupProblem ar bgr2yuv Y scribbles maskMat gamma = Inr (A, b_u, b_v)"
    and bound: "rows Y * cols Y < 2 ^ 31"
    and p: "inGrid (rows Y) (cols Y) p" and ne: "s \<noteq> flatIndex (cols Y) p"
  shows "(\<exists>x. (flatIndex (cols Y) p, s, x) \<in> set (entries A))
           \<longleftrightarrow> s \<in> set (getNeighbours (fst p) (snd p) (rows Y) (cols Y)) \<and> \<not> hasColorOf maskMat ! s"
proof -
  let ?r = "flatIndex (cols Y) p"
  let ?n = "getNeighbours (fst p) (snd p) (rows Y) (cols Y)"
  let ?hc = "hasColorOf maskMat"
  let ?row = "rowOf ar (to1D Y) ?hc gamma (rows Y) (cols Y)"
  note R = setupProblem_Inr[OF ok bound]
  from p have mem: "p \<in> set (pixels (rows Y) (cols Y))" by (simp add: set_pixels)
  with R obtain ws where ws: "getWeights ar (to1D Y) ?r ?n gamma = Inr ws" by blast
  have len: "length ws = length ?n" by (rule getWeights_Inr_length[OF ws])
  have pairs: "pairsOf ar (to1D Y) gamma (rows Y) (cols Y) p = zip ?n ws"
    by (simp add: pairsOf_def weightsOf_def ws)
  have ent: "set (entries A) = (\<Union>q\<in>set (pixels (rows Y) (cols Y)). set (?row q))"
    using R by (simp add: setFromTriplets_def resize_def)
  have only: "(?r, s, x) \<in> set (entries A) \<longleftrightarrow> (?r, s, x) \<in> set (?row p)" for x
  proof
    assume "(?r, s, x) \<in> set (entries A)"
    then obtain q where q: "q \<in> set (pixels (rows Y) (cols Y))" "(?r, s, x) \<in> set (?row q)"
      unfolding ent by blast
    then have "flatIndex (cols Y) q = ?r"
      by (auto simp add: rowOf_def rowEntries_def)
    with q(1) p have "q = p"
      by (auto simp add: set_pixels dest: flatIndex_inj)
    with q(2) show "(?r, s, x) \<in> set (?row p)" by simp
  next
    assume "(?r, s, x) \<in> set (?row p)"
    with mem show "(?r, s, x) \<in> set (entries A)" unfolding ent by blast
  qed
  have row: "(?r, s, x) \<in> set (?row p) \<longleftrightarrow> (\<exists>w. (s, w) \<in> set (zip ?n ws) \<and> x = f_neg ar w) \<and> \<not> ?hc ! s" for x
    using ne by (simp add: rowOf_def rowEntries_mem pairs)
  have "(\<exists>w. (s, w) \<in> set (zip ?n ws)) \<longleftrightarrow> s \<in> set ?n"
  proof
    assume "\<exists>w. (s, w) \<in> set (zip ?n ws)"
    then show "s \<in> set ?n" by (auto dest: set_zip_leftD)
  next
    assume "s \<in> set ?n"
    then obtain k where k: "k < length ?n" "?n ! k = s" by (auto simp add: in_set_conv_nth)
    with len have "(s, ws ! k) \<in> set (zip ?n ws)" by (auto simp add: set_zip)
    then show "\<exists>w. (s, w) \<in> set (zip ?n ws)" by blast
  qed
  with only row show ?thesis by auto
qed


text \<open>The system of a 1x2 image of luminance 0 with no scribble, in exact arithmetic.\<close>

lemma setupProblem_two_pixels_free:
  "setupProblem exactArith (\<lambda>_. ([[0, 0]], [[10, 20]], [[30, 40]])) [[0, 0]]
     [[(0, 0, 0), (0, 0, 0)]] [[0, 0]] 2
     = Inr (\<lparr>outerSize = 2, innerSize = 2, entries = [(0, 0, 1), (0, 1, - 1), (1, 1, 1), (1, 0, - 1)]\<rparr>,
            [0, 0], [0, 0])"
proof -
  have n: "getNeighbours 0 0 1 2 = [Suc 0]" "getNeighbours 0 1 1 2 = [0]"
    by (simp_all add: getNeighbours_def toULong_def wrap32_def)
  have dims: "rows [[0, 0 :: real]] = 1" "cols [[0, 0 :: real]] = 2"
    by (simp_all add: rows_def cols_def)
  have flat: "to1D [[0, 0 :: real]] = [0, 0]"
    "scribbleU (\<lambda>_. ([[0, 0 :: real]], [[10, 20 :: real]], [[30, 40 :: real]])) [[(0, 0, 0), (0, 0, 0)]] = [10, 20]"
    "scribbleV (\<lambda>_. ([[0, 0 :: real]], [[10, 20 :: real]], [[30, 40 :: real]])) [[(0, 0, 0), (0, 0, 0)]] = [30, 40]"
    "hasColorOf [[0, 0]] = [False, False]"
    by (simp_all add: to1D_def cols_def scribbleU_def scribbleV_def hasColorOf_def)
  have px: "pixels 1 2 = [(0, 0), (0, 1)]"
    by (simp add: pixels_def upto_rec1)
  have size: "nat (wrap32 (1 * 2)) = 2" by (simp add: wrap32_def)
  have zeros: "replicate 2 (f_zero exactArith) = [0, 0 :: real]"
    by (simp add: numeral_2_eq_2 exact_fields)
  have loop: "pixelLoop exactArith [0, 0] [10, 20] [30, 40] [False, False] 2 1 2 [(0, 0), (0, 1)]
                \<lparr>coefficients = [], bu = [0, 0], bv = [0, 0]\<rparr>
              = Inr \<lparr>coefficients = [(0, 0, 1), (0, 1, - 1), (1, 1, 1), (1, 0, - 1)], bu = [0, 0], bv = [0, 0]\<rparr>"
    by (simp add: pixelStep_def Let_def n wrap32_def toULong_def getWeights_flat2 exact_fields)
  show ?thesis
    unfolding setupProblem_unfold dims size zeros flat px loop
    by (simp add: resize_def setFromTriplets_def)
qed



text \<open>
  Claim C10. For two pixels of the same grid of fewer than \<open>2^31\<close> pixels, the second is
  among the neighbours that getNeighbours returns for the first exactly when the first is
  among those of the second. Hence in the system that setupProblem returns, for two
  distinct pixels \<open>r\<close> and \<open>s\<close> where the mask is false, the matrix stores an entry at
  \<open>(r, s)\<close> exactly when it stores one at \<open>(s, r)\<close>.
\<close>

theorem neighbours_symmetric:
  assumes "inGrid nrows ncols (i, j)" and "inGrid nrows ncols (i', j')" and "nrows * ncols < 2 ^ 31"
  shows "(nat (i' * ncols + j') \<in> set (getNeighbours i j nrows ncols)
            \<longleftrightarrow> nat (i * ncols + j) \<in> set (getNeighbours i' j' nrows ncols))
       \<and> (rows Y = nrows \<and> cols Y = ncols
            \<and> setupProblem ar bgr2yuv Y scribbles maskMat gamma = Inr (A, b_u, b_v)
            \<and> (i, j) \<noteq> (i', j')
            \<and> \<not> hasColorOf maskMat ! nat (i * ncols + j)
            \<and> \<not> hasColorOf maskMat ! nat (i' * ncols + j')
          \<longrightarrow> ((\<exists>w. (nat (i * ncols + j), nat (i' * ncols + j'), w) \<in> set (entries A))
                 \<longleftrightarrow> (\<exists>w. (nat (i' * ncols + j'), nat (i * ncols + j), w) \<in> set (entries A))))"
proof -
  let ?r = "nat (i * ncols + j)" and ?s = "nat (i' * ncols + j')"
  note bound = assms(3)
  have r: "flatIndex ncols (i, j) = ?r" and s: "flatIndex ncols (i', j') = ?s"
    by (simp_all add: flatIndex_def)
  have "?s \<in> set (getNeighbours i j nrows ncols) \<longleftrightarrow> (i', j') \<in> set (neighbourPositions i j nrows ncols)"
    using flatIndex_mem_getNeighbours[OF assms(2) bound, of i j] by (simp add: s)
  also have "\<dots> \<longleftrightarrow> (i, j) \<in> set (neighbourPositions i' j' nrows ncols)"
    using assms(1,2) unfolding set_neighbourPositions by auto
  also have "\<dots> \<longleftrightarrow> ?r \<in> set (getNeighbours i' j' nrows ncols)"
    using flatIndex_mem_getNeighbours[OF assms(1) bound, of i' j'] by (simp add: r)
  finally have sym: "?s \<in> set (getNeighbours i j nrows ncols) \<longleftrightarrow> ?r \<in> set (getNeighbours i' j' nrows ncols)" .
  have pattern: "(\<exists>w. (?r, ?s, w) \<in> set (entries A)) \<longleftrightarrow> (\<exists>w. (?s, ?r, w) \<in> set (entries A))"
    if h: "rows Y = nrows \<and> cols Y = ncols
            \<and> setupProblem ar bgr2yuv Y scribbles maskMat gamma = Inr (A, b_u, b_v)
            \<and> (i, j) \<noteq> (i', j')
            \<and> \<not> hasColorOf maskMat ! ?r \<and> \<not> hasColorOf maskMat ! ?s"
  proof -
    from h have ok: "setupProblem ar bgr2yuv Y scribbles maskMat gamma = Inr (A, b_u, b_v)"
      and p: "inGrid (rows Y) (cols Y) (i, j)" and q: "inGrid (rows Y) (cols Y) (i', j')"
      and b: "rows Y * cols Y < 2 ^ 31"
      using assms by simp_all
    have ne: "?r \<noteq> ?s"
      using flatIndex_inj[OF assms(1,2)] h by (auto simp add: r s)
    from ne have "?s \<noteq> flatIndex (cols Y) (i, j)" using h by (simp add: flatIndex_def)
    from entries_row_mem[OF ok b p this] h
    have a: "(\<exists>w. (?r, ?s, w) \<in> set (entries A)) \<longleftrightarrow> ?s \<in> set (getNeighbours i j nrows ncols)"
      by (simp add: flatIndex_def)
    from ne have "?r \<noteq> flatIndex (cols Y) (i', j')" using h by (simp add: flatIndex_def)
    from entries_row_mem[OF ok b q this] h
    have c: "(\<exists>w. (?s, ?r, w) \<in> set (entries A)) \<longleftrightarrow> ?r \<in> set (getNeighbours i' j' nrows ncols)"
      by (simp add: flatIndex_def)
    from a c sym show ?thesis by simp
  qed
  show ?thesis
  proof (intro conjI impI)
    show "?s \<in> set (getNeighbours i j nrows ncols) \<longleftrightarrow> ?r \<in> set (getNeighbours i' j' nrows ncols)"
      by (rule sym)
  next
    assume "rows Y = nrows \<and> cols Y = ncols
            \<and> setupProblem ar bgr2yuv Y scribbles maskMat gamma = Inr (A, b_u, b_v)
            \<and> (i, j) \<noteq> (i', j')
            \<and> \<not> hasColorOf maskMat ! ?r \<and> \<not> hasColorOf maskMat ! ?s"
    then show "(\<exists>w. (?r, ?s, w) \<in> set (entries A)) \<longleftrightarrow> (\<exists>w. (?s, ?r, w) \<in> set (entries A))"
      by (rule pattern)
  qed
qed

text \<open>The theorem on the two pixels of a 1x2 image with no scribble.\<close>

theorem neighbours_symmetric_witness:
  "inGrid 1 2 (0, 0) \<and> inGrid 1 2 (0, 1) \<and> (1 :: int) * 2 < 2 ^ 31
   \<and> 1 \<in> set (getNeighbours 0 0 1 2) \<and> 0 \<in> set (getNeighbours 0 1 1 2)
   \<and> rows [[0, 0 :: real]] = 1 \<and> cols [[0, 0 :: real]] = 2
   \<and> (0 :: int, 0 :: int) \<noteq> (0, 1)
   \<and> \<not> hasColorOf [[0, 0]] ! 0 \<and> \<not> hasColorOf [[0, 0]] ! 1
   \<and> setupProblem exactArith (\<lambda>_. ([[0, 0]], [[10, 20]], [[30, 40]])) [[0, 0]]
         [[(0, 0, 0), (0, 0, 0)]] [[0, 0]] 2
       = Inr (\<lparr>outerSize = 2, innerSize = 2, entries = [(0, 0, 1), (0, 1, - 1), (1, 1, 1), (1, 0, - 1)]\<rparr>,
              [0, 0], [0, 0])
   \<and> (\<exists>w. (0, 1, w) \<in> set [(0, 0, 1), (0, 1, - 1), (1, 1, 1), (1 :: nat, 0 :: nat, - 1 :: real)])
   \<and> (\<exists>w. (1, 0, w) \<in> set [(0, 0, 1), (0, 1, - 1), (1, 1, 1), (1 :: nat, 0 :: nat, - 1 :: real)])"
proof -
  let ?Y = "[[0, 0 :: real]]"
  let ?f = "\<lambda>_ :: image. ([[0, 0 :: real]], [[10, 20 :: real]], [[30, 40 :: real]])"
  let ?m = "[[0, 0 :: uchar]]"
  let ?A = "\<lparr>outerSize = 2, innerSize = 2, entries = [(0, 0, 1 :: real), (0, 1, - 1), (1, 1, 1), (1, 0, - 1)]\<rparr>"
  note sp = setupProblem_two_pixels_free
  have g: "inGrid 1 2 (0, 0)" "inGrid 1 2 (0, 1)" by (simp_all add: inGrid_def)
  have b: "(1 :: int) * 2 < 2 ^ 31" by simp
  have dims: "rows ?Y = 1" "cols ?Y = 2" by (simp_all add: rows_def cols_def)
  have hc: "\<not> hasColorOf ?m ! 0" "\<not> hasColorOf ?m ! 1"
    by (simp_all add: hasColorOf_def to1D_def cols_def)
  have n: "1 \<in> set (getNeighbours 0 0 1 2)" by (simp add: getNeighbours_def toULong_def wrap32_def)
  have ne: "(0 :: int, 0 :: int) \<noteq> (0, 1)" by simp
  note T = neighbours_symmetric[OF g b, of ?Y exactArith ?f "[[(0, 0, 0), (0, 0, 0)]]" ?m 2 ?A "[0, 0]" "[0, 0]"]
  from T[THEN conjunct1] n have n': "0 \<in> set (getNeighbours 0 1 1 2)" by simp
  have e1: "\<exists>w. (0, 1, w) \<in> set [(0, 0, 1), (0, 1, - 1), (1, 1, 1), (1 :: nat, 0 :: nat, - 1 :: real)]"
    by (intro exI[of _ "- 1"]) simp
  from T[THEN conjunct2] dims sp hc e1
  have e2: "\<exists>w. (1, 0, w) \<in> set [(0, 0, 1), (0, 1, - 1), (1, 1, 1), (1 :: nat, 0 :: nat, - 1 :: real)]"
    by simp
  from g b n n' dims ne hc sp e1 e2 show ?thesis by (intro conjI)
qed

section \<open>The scribble mask of identical images\<close>

lemma absdiff_same: "absdiff img img = map (map (\<lambda>_. (0, 0, 0))) img"
proof -
  have "map2 (\<lambda>(b1, g1, r1) (b2, g2, r2). (absdiff8 b1 b2, absdiff8 g1 g2, absdiff8 r1 r2)) row row
          = map (\<lambda>_. (0, 0, 0)) row" for row :: "pixel list"
    by (simp add: zip_same_conv_map absdiff8_def comp_def split_def)
  then show ?thesis by (simp add: absdiff_def zip_same_conv_map comp_def)
qed

lemma channelSum_zero: "channelSum (map (map (\<lambda>_. (0, 0, 0))) img) = map (map (\<lambda>_. 0)) img"
  by (simp add: channelSum_def saturatingAdd_def comp_def)

lemma threshold_zero:
  assumes "0 \<le> eps"
  shows "threshold (map (map (\<lambda>_. 0)) img) eps = map (map (\<lambda>_. 0)) img"
  using assms by (simp add: threshold_def comp_def)

lemma zero_image:
  assumes "wfMat img"
  shows "map (map (\<lambda>_. 0)) img = zeroMat (nat (rows img)) (nat (cols img))"
proof -
  have "map (map (\<lambda>_. 0 :: uchar)) img = map (\<lambda>row. replicate (nat (cols img)) 0) img"
  proof (rule map_cong[OF refl])
    fix row assume "row \<in> set img"
    with assms have "length row = nat (cols img)" by (auto simp add: wfMat_def list_all_iff)
    then show "map (\<lambda>_. 0 :: uchar) row = replicate (nat (cols img)) 0"
      by (simp add: map_replicate_const)
  qed
  also have "\<dots> = replicate (length img) (replicate (nat (cols img)) 0)"
    by (simp add: map_replicate_const)
  finally show ?thesis by (simp add: zeroMat_def rows_def)
qed

lemma foldr_min_zero:
  assumes "xs \<noteq> []" and "\<forall>x\<in>set xs. x = 0"
  shows "foldr min xs (255 :: uchar) = 0"
proof (cases xs)
  case Nil
  with assms(1) show ?thesis by simp
next
  case (Cons x rest)
  with assms(2) have "x = 0" by simp
  then show ?thesis by (simp add: Cons min_def)
qed

lemma erode1_zero: "erode1 (zeroMat R C) = zeroMat R C"
proof (cases "R = 0")
  case True
  then show ?thesis by (simp add: erode1_def zeroMat_def rows_def)
next
  case False
  let ?Z = "zeroMat R C"
  have dims: "rows ?Z = int R" "cols ?Z = int C"
    using False by (simp_all add: zeroMat_def rows_def cols_def split: list.splits) (cases R; simp)+
  have px: "pixelAt ?Z p = 0" if "inGrid (int R) (int C) p" for p
  proof -
    from that have "nat (fst p) < R" "nat (snd p) < C" by (simp_all add: inGrid_def nat_less_iff)
    then show ?thesis by (simp add: pixelAt_def zeroMat_def)
  qed
  have cell: "foldr min (map (pixelAt ?Z) (filter (inGrid (int R) (int C)) (window i j))) 255 = 0"
    if "i \<in> set [0 .. int R - 1]" "j \<in> set [0 .. int C - 1]" for i j
  proof (rule foldr_min_zero)
    from that have "inGrid (int R) (int C) (i, j)" by (simp add: inGrid_def)
    moreover have "(i, j) \<in> set (window i j)" by (simp add: set_window)
    ultimately show "map (pixelAt ?Z) (filter (inGrid (int R) (int C)) (window i j)) \<noteq> []"
      by (auto simp add: filter_empty_conv)
  next
    show "\<forall>x\<in>set (map (pixelAt ?Z) (filter (inGrid (int R) (int C)) (window i j))). x = 0"
      by (auto simp add: px)
  qed
  have "erode1 ?Z = map (\<lambda>i. map (\<lambda>j. 0) [0 .. int C - 1]) [0 .. int R - 1]"
    unfolding erode1_def dims
    by (intro map_cong refl) (simp add: cell)
  also have "\<dots> = ?Z"
    by (simp add: map_replicate_const zeroMat_def)
  finally show ?thesis .
qed

lemma erode_zero: "erode (zeroMat R C) n = zeroMat R C"
  unfolding erode_def by (induction n) (simp_all add: erode1_zero)

text \<open>
  Claim C7. For every image and every threshold \<open>eps >= 0\<close> (the default is 1) and number of
  erosions (the default is 1), getScribbleMask applied to the image and to a scribble image
  identical to it returns the mask of the same shape whose bytes are all 0: no pixel is
  constrained.
\<close>

theorem getScribbleMask_identical:
  assumes "wfMat img" and "0 \<le> eps"
  shows "getScribbleMask img img eps nErosions = map (map (\<lambda>_. 0)) img
       \<and> (\<forall>b\<in>set (hasColorOf (getScribbleMask img img eps nErosions)). \<not> b)"
proof -
  have "getScribbleMask img img eps nErosions = erode (map (map (\<lambda>_. 0)) img) nErosions"
    by (simp add: getScribbleMask_def Let_def absdiff_same channelSum_zero threshold_zero[OF assms(2)])
  also have "\<dots> = map (map (\<lambda>_. 0)) img"
    by (simp add: zero_image[OF assms(1)] erode_zero)
  finally have eq: "getScribbleMask img img eps nErosions = map (map (\<lambda>_. 0)) img" .
  have "\<forall>b\<in>set (hasColorOf (map (map (\<lambda>_. 0)) img)). \<not> b"
    by (auto simp add: hasColorOf_def to1D_def dest: in_set_takeD)
  with eq show ?thesis by simp
qed

text \<open>The theorem on a 2x2 image, with the default threshold and number of erosions.\<close>

theorem getScribbleMask_identical_witness:
  "wfMat [[(1, 2, 3), (200, 100, 50)], [(7, 7, 7), (0, 255, 9 :: uchar)]] \<and> (0 :: real) \<le> 1
   \<and> getScribbleMask [[(1, 2, 3), (200, 100, 50)], [(7, 7, 7), (0, 255, 9)]]
        [[(1, 2, 3), (200, 100, 50)], [(7, 7, 7), (0, 255, 9)]] 1 1 = [[0, 0], [0, 0]]"
proof -
  have wf: "wfMat [[(1, 2, 3), (200, 100, 50)], [(7, 7, 7), (0, 255, 9 :: uchar)]]"
    by (simp add: wfMat_def cols_def)
  have e: "(0 :: real) \<le> 1" by simp
  from getScribbleMask_identical[OF wf e, of 1] wf show ?thesis by simp
qed

section \<open>Solver failure in colorize\<close>

text \<open>
  Claim C4. When setupProblem has returned the system and the solve for U or the solve for V
  does not report success, colorize returns the runtime error of the first failing channel;
  and colorize returns an image only if both solves reported success.
\<close>

theorem colorize_solver_failure:
  "(setupProblem ar bgr2yuv (fst (bgr2yuv img)) scribbles maskMat gamma = Inr (A, b_u, b_v)
      \<and> (\<not> snd (solve A b_u) \<or> \<not> snd (solve A b_v))
     \<longrightarrow> colorize ar bgr2yuv solve yuv2bgr img scribbles maskMat gamma
           = Inl (RuntimeError (if \<not> snd (solve A b_u) then ''Failed to solve for U channel.''
                                else ''Failed to solve for V channel.'')))
   \<and> (\<forall>out. colorize ar bgr2yuv solve yuv2bgr img scribbles maskMat gamma = Inr out
         \<longrightarrow> (\<exists>A b_u b_v. setupProblem ar bgr2yuv (fst (bgr2yuv img)) scribbles maskMat gamma = Inr (A, b_u, b_v)
                  \<and> snd (solve A b_u) \<and> snd (solve A b_v)))"
proof -
  obtain Y U0 V0 where yuv: "bgr2yuv img = (Y, U0, V0)" by (cases "bgr2yuv img") auto
  have fails: "colorize ar bgr2yuv solve yuv2bgr img scribbles maskMat gamma
           = Inl (RuntimeError (if \<not> snd (solve A b_u) then ''Failed to solve for U channel.''
                                else ''Failed to solve for V channel.''))"
    if "setupProblem ar bgr2yuv (fst (bgr2yuv img)) scribbles maskMat gamma = Inr (A, b_u, b_v)
          \<and> (\<not> snd (solve A b_u) \<or> \<not> snd (solve A b_v))"
    using that by (auto simp add: colorize_def yuv Let_def split_def)
  have returns: "\<exists>A b_u b_v. setupProblem ar bgr2yuv (fst (bgr2yuv img)) scribbles maskMat gamma = Inr (A, b_u, b_v)
                  \<and> snd (solve A b_u) \<and> snd (solve A b_v)"
    if "colorize ar bgr2yuv solve yuv2bgr img scribbles maskMat gamma = Inr out" for out
    using that
    by (auto simp add: colorize_def yuv Let_def split_def split: sum.splits if_splits)
  from fails returns show ?thesis by blast
qed

text \<open>
  The theorem on the scribbled 1x2 image, with a solver that never succeeds, and with a
  solver that succeeds on the right-hand side of U only.
\<close>

theorem colorize_solver_failure_witness:
  "setupProblem exactArith (\<lambda>_. ([[0, 0]], [[10, 20]], [[30, 40]])) [[0, 0]] [[(0, 0, 0), (0, 0, 0)]] [[0, 255]] 2
     = Inr (\<lparr>outerSize = 2, innerSize = 2, entries = [(0, 0, 1), (1, 1, 1), (1, 0, - 1)]\<rparr>,
            [20, 0], [40, 0])
   \<and> \<not> snd ((\<lambda>A b. (b, False)) \<lparr>outerSize = 2, innerSize = 2, entries = [(0, 0, 1), (1, 1, 1), (1, 0, - 1)]\<rparr> [20, 0 :: real])
   \<and> colorize exactArith (\<lambda>_. ([[0, 0]], [[10, 20]], [[30, 40]])) (\<lambda>A b. (b, False)) (\<lambda>_. [[(0, 0, 0), (0, 0, 0)]])
        [[(0, 0, 0), (0, 0, 0)]] [[(0, 0, 0), (0, 0, 0)]] [[0, 255]] 2
       = Inl (RuntimeError ''Failed to solve for U channel.'')
   \<and> snd ((\<lambda>A b. (b, b ! 0 = 20)) \<lparr>outerSize = 2, innerSize = 2, entries = [(0, 0, 1), (1, 1, 1), (1, 0, - 1)]\<rparr> [20, 0 :: real])
   \<and> \<not> snd ((\<lambda>A b. (b, b ! 0 = 20)) \<lparr>outerSize = 2, innerSize = 2, entries = [(0, 0, 1), (1, 1, 1), (1, 0, - 1)]\<rparr> [40, 0 :: real])
   \<and> colorize exactArith (\<lambda>_. ([[0, 0]], [[10, 20]], [[30, 40]])) (\<lambda>A b. (b, b ! 0 = 20)) (\<lambda>_. [[(0, 0, 0), (0, 0, 0)]])
        [[(0, 0, 0), (0, 0, 0)]] [[(0, 0, 0), (0, 0, 0)]] [[0, 255]] 2
       = Inl (RuntimeError ''Failed to solve for V channel.'')"
proof -
  let ?f = "\<lambda>_ :: image. ([[0, 0 :: real]], [[10, 20 :: real]], [[30, 40 :: real]])"
  let ?g = "\<lambda>_ :: real Mat \<times> real Mat \<times> real Mat. [[(0, 0, 0), (0, 0, 0)]] :: image"
  let ?A = "\<lparr>outerSize = 2, innerSize = 2, entries = [(0, 0, 1), (1, 1, 1), (1, 0, - 1)]\<rparr>"
  have sp: "setupProblem exactArith ?f (fst (?f [[(0, 0, 0), (0, 0, 0)]])) [[(0, 0, 0), (0, 0, 0)]] [[0, 255]] 2
              = Inr (?A, [20, 0], [40, 0])"
    using setupProblem_two_pixels by simp
  have u: "colorize exactArith ?f (\<lambda>A b. (b, False)) ?g [[(0, 0, 0), (0, 0, 0)]] [[(0, 0, 0), (0, 0, 0)]] [[0, 255]] 2
             = Inl (RuntimeError ''Failed to solve for U channel.'')"
    using colorize_solver_failure[of exactArith ?f "[[(0, 0, 0), (0, 0, 0)]]" "[[(0, 0, 0), (0, 0, 0)]]" "[[0, 255]]" 2
            ?A "[20, 0]" "[40, 0]" "\<lambda>A b. (b, False)" ?g] sp
    by simp
  have v: "colorize exactArith ?f (\<lambda>A b. (b, b ! 0 = 20)) ?g [[(0, 0, 0), (0, 0, 0)]] [[(0, 0, 0), (0, 0, 0)]] [[0, 255]] 2
             = Inl (RuntimeError ''Failed to solve for V channel.'')"
    using colorize_solver_failure[of exactArith ?f "[[(0, 0, 0), (0, 0, 0)]]" "[[(0, 0, 0), (0, 0, 0)]]" "[[0, 255]]" 2
            ?A "[20, 0]" "[40, 0]" "\<lambda>A b. (b, b ! 0 = 20)" ?g] sp
    by simp
  from setupProblem_two_pixels u v show ?thesis by simp
qed

end
